theory Spec2Isabelle
  imports Main "HOL-Library.Multiset"
begin

section \<open>Data model of word-search-gen.py\<close>

text \<open>
  A board is a list of rows, a cell is \<open>None\<close> or one character
  (\<^verbatim>\<open>type Board = list[list[str | None]]\<close>). Positions and directions are pairs
  of Python integers. The board is mutated in place by the source; the model passes it
  through and returns it. \<^verbatim>\<open>init_board\<close> builds every row afresh, so no two rows
  alias and a list of lists is an adequate store.
\<close>

type_synonym cell = "char option"
type_synonym Board = "cell list list"
type_synonym Position = "int \<times> int"
type_synonym Direction = "int \<times> int"

datatype error = IndexError

subsection \<open>Python primitives used by the source\<close>

text \<open>\<^verbatim>\<open>range(a, b)\<close> over integers.\<close>

definition py_range :: "int \<Rightarrow> int \<Rightarrow> int list" where
  "py_range a b = [a..b - 1]"

text \<open>
  \<^verbatim>\<open>xs[i]\<close> and \<^verbatim>\<open>xs[i] = v\<close>: a negative index counts from the end, an index
  outside \<open>[-len, len)\<close> raises IndexError.
\<close>

definition py_norm_index :: "nat \<Rightarrow> int \<Rightarrow> error + nat" where
  "py_norm_index len i =
     (let n = int len; j = (if i < 0 then n + i else i)
      in if 0 \<le> j \<and> j < n then Inr (nat j) else Inl IndexError)"

definition py_getitem :: "'a list \<Rightarrow> int \<Rightarrow> error + 'a" where
  "py_getitem xs i =
     (case py_norm_index (length xs) i of Inl e \<Rightarrow> Inl e | Inr j \<Rightarrow> Inr (xs ! j))"

definition py_setitem :: "'a list \<Rightarrow> int \<Rightarrow> 'a \<Rightarrow> error + 'a list" where
  "py_setitem xs i v =
     (case py_norm_index (length xs) i of Inl e \<Rightarrow> Inl e | Inr j \<Rightarrow> Inr (xs[j := v]))"

text \<open>\<^verbatim>\<open>board[r][c]\<close> and \<^verbatim>\<open>board[r][c] = ch\<close>.\<close>

definition board_get :: "Board \<Rightarrow> int \<Rightarrow> int \<Rightarrow> error + cell" where
  "board_get board r c =
     (case py_getitem board r of Inl e \<Rightarrow> Inl e | Inr row \<Rightarrow> py_getitem row c)"

definition board_set :: "Board \<Rightarrow> int \<Rightarrow> int \<Rightarrow> char \<Rightarrow> error + Board" where
  "board_set board r c ch =
     (case py_getitem board r of
        Inl e \<Rightarrow> Inl e
      | Inr row \<Rightarrow>
          (case py_setitem row c (Some ch) of
             Inl e \<Rightarrow> Inl e
           | Inr row' \<Rightarrow> py_setitem board r row'))"

subsection \<open>The process-wide random source\<close>

text \<open>
  The module \<^verbatim>\<open>random\<close> is a hidden global generator. The model makes it an
  explicit state: the list of raw draws still to come (an exhausted list keeps
  answering 0), so that every theorem below holds for every sequence of outcomes.
  \<open>randbelow n\<close> is the library's \<^verbatim>\<open>_randbelow(n)\<close>, \<open>randint a b\<close> is
  \<^verbatim>\<open>a + _randbelow(b - a + 1)\<close>, \<open>choice\<close> raises IndexError on an empty
  sequence, and \<open>shuffle\<close> is the library's loop
  \<^verbatim>\<open>for i in reversed(range(1, len(x))): j = randbelow(i + 1); x[i], x[j] = x[j], x[i]\<close>.
\<close>

type_synonym rng = "nat list"

fun randbelow :: "nat \<Rightarrow> rng \<Rightarrow> nat \<times> rng" where
  "randbelow n [] = (0, [])"
| "randbelow n (x # g) = (x mod n, g)"

definition randint :: "nat \<Rightarrow> nat \<Rightarrow> rng \<Rightarrow> nat \<times> rng" where
  "randint a b g = (case randbelow (b - a + 1) g of (k, g') \<Rightarrow> (a + k, g'))"

definition choice :: "'a list \<Rightarrow> rng \<Rightarrow> error + 'a \<times> rng" where
  "choice xs g =
     (if length xs = 0 then Inl IndexError
      else case randbelow (length xs) g of (k, g') \<Rightarrow> Inr (xs ! k, g'))"

fun shuffle_from :: "nat \<Rightarrow> 'a list \<Rightarrow> rng \<Rightarrow> 'a list \<times> rng" where
  "shuffle_from 0 xs g = (xs, g)"
| "shuffle_from (Suc i) xs g =
     (case randbelow (Suc i + 1) g of
        (j, g') \<Rightarrow> shuffle_from i (xs[Suc i := xs ! j, j := xs ! Suc i]) g')"

definition shuffle :: "'a list \<Rightarrow> rng \<Rightarrow> 'a list \<times> rng" where
  "shuffle xs g = shuffle_from (length xs - 1) xs g"

section \<open>The functions of the generator\<close>

definition init_board :: "int \<Rightarrow> Board" where
  "init_board board_size = replicate (nat board_size) (replicate (nat board_size) None)"

definition create_all_directions :: "Direction list" where
  "create_all_directions =
     filter (\<lambda>direction. fst direction \<noteq> 0 \<and> snd direction \<noteq> 0)
       (List.product [-1, 0, 1] [-1, 0, 1])"

subsection \<open>\<^verbatim>\<open>can_place_word\<close> and \<^verbatim>\<open>place_word\<close>\<close>

text \<open>
  Both loops run \<^verbatim>\<open>for i, char in enumerate(word)\<close>; the index is the extra
  argument, 0 at the call.
\<close>

fun can_place_from ::
  "Board \<Rightarrow> int \<Rightarrow> int \<Rightarrow> string \<Rightarrow> Position \<Rightarrow> Direction \<Rightarrow> error + bool" where
  "can_place_from board board_size i [] position direction = Inr True"
| "can_place_from board board_size i (char # rest) position direction =
     (let r = fst position + i * fst direction;
          c = snd position + i * snd direction
      in if r < 0 \<or> r \<ge> board_size \<or> c < 0 \<or> c \<ge> board_size then Inr False
         else case board_get board r c of
                Inl e \<Rightarrow> Inl e
              | Inr x \<Rightarrow>
                  if x \<noteq> None \<and> x \<noteq> Some char then Inr False
                  else can_place_from board board_size (i + 1) rest position direction)"

definition can_place_word ::
  "Board \<Rightarrow> int \<Rightarrow> string \<Rightarrow> Position \<Rightarrow> Direction \<Rightarrow> error + bool" where
  "can_place_word board board_size word position direction =
     can_place_from board board_size 0 word position direction"

fun place_from :: "Board \<Rightarrow> int \<Rightarrow> string \<Rightarrow> Position \<Rightarrow> Direction \<Rightarrow> error + Board" where
  "place_from board i [] position direction = Inr board"
| "place_from board i (char # rest) position direction =
     (let r = fst position + i * fst direction;
          c = snd position + i * snd direction
      in case board_set board r c char of
           Inl e \<Rightarrow> Inl e
         | Inr board' \<Rightarrow> place_from board' (i + 1) rest position direction)"

definition place_word :: "Board \<Rightarrow> string \<Rightarrow> Position \<Rightarrow> Direction \<Rightarrow> error + Board" where
  "place_word board word position direction = place_from board 0 word position direction"

subsection \<open>\<^verbatim>\<open>populate_board\<close>\<close>

text \<open>The locals of \<^verbatim>\<open>populate_board\<close>, with the board and the random source.\<close>

record pstate =
  st_board :: Board
  st_positions :: "Position list"
  st_pop_positions :: "Position list"
  st_words :: "string list"
  st_max_length :: nat
  st_rng :: rng

text \<open>The candidate starting positions of line 143.\<close>

definition candidate_positions :: "int \<Rightarrow> Position list" where
  "candidate_positions board_size =
     List.product (py_range 0 (board_size - 1)) (py_range 0 (board_size - 1))"

definition initial_state :: "Board \<Rightarrow> int \<Rightarrow> rng \<Rightarrow> pstate" where
  "initial_state board board_size g =
     \<lparr>st_board = board, st_positions = candidate_positions board_size,
      st_pop_positions = [], st_words = [], st_max_length = 0, st_rng = g\<rparr>"

text \<open>
  One pass through the body of the \<^verbatim>\<open>while\<close> loop (lines 153 to 160), entered with
  a non-empty pool: the result is the new state and the new value of \<open>placed\<close>.
\<close>

definition attempt_step ::
  "int \<Rightarrow> string \<Rightarrow> Direction list \<Rightarrow> pstate \<Rightarrow> error + pstate \<times> bool" where
  "attempt_step board_size word directions s =
     (let position = last (st_positions s);
          s1 = s\<lparr>st_positions := butlast (st_positions s),
                 st_pop_positions := st_pop_positions s @ [position]\<rparr>
      in case choice directions (st_rng s1) of
           Inl e \<Rightarrow> Inl e
         | Inr (direction, g') \<Rightarrow>
             (let s2 = s1\<lparr>st_rng := g'\<rparr>
              in case can_place_word (st_board s2) board_size word position direction of
                   Inl e \<Rightarrow> Inl e
                 | Inr False \<Rightarrow> Inr (s2, False)
                 | Inr True \<Rightarrow>
                     (case place_word (st_board s2) word position direction of
                        Inl e \<Rightarrow> Inl e
                      | Inr board' \<Rightarrow>
                          Inr (s2\<lparr>st_board := board',
                                  st_words := st_words s2 @ [word],
                                  st_max_length := max (length word) (st_max_length s2)\<rparr>,
                               True))))"

text \<open>
  The \<^verbatim>\<open>while not placed and len(positions) != 0\<close> loop. Nothing in its shape
  says that it ends, so it is a partial function: \<open>None\<close> would be a run that never
  returns.
\<close>

partial_function (option) attempt_loop ::
  "int \<Rightarrow> string \<Rightarrow> Direction list \<Rightarrow> pstate \<Rightarrow> bool \<Rightarrow> (error + pstate) option" where
  "attempt_loop board_size word directions s placed =
     (if \<not> placed \<and> length (st_positions s) \<noteq> 0 then
        (case attempt_step board_size word directions s of
           Inl e \<Rightarrow> Some (Inl e)
         | Inr (s', placed') \<Rightarrow> attempt_loop board_size word directions s' placed')
      else Some (Inr s))"

declare attempt_loop.simps [code]

text \<open>The \<^verbatim>\<open>for word in vocabulary\<close> loop (lines 147 to 160).\<close>

fun populate_words ::
  "int \<Rightarrow> Direction list \<Rightarrow> string list \<Rightarrow> pstate \<Rightarrow> (error + pstate) option" where
  "populate_words board_size directions [] s = Some (Inr s)"
| "populate_words board_size directions (word # rest) s =
     (case shuffle (st_positions s @ st_pop_positions s) (st_rng s) of
        (positions', g') \<Rightarrow>
          (case attempt_loop board_size word directions
                  (s\<lparr>st_positions := positions', st_pop_positions := [], st_rng := g'\<rparr>) False of
             None \<Rightarrow> None
           | Some (Inl e) \<Rightarrow> Some (Inl e)
           | Some (Inr s') \<Rightarrow> populate_words board_size directions rest s'))"

text \<open>
  \<^verbatim>\<open>populate_board\<close> returns \<^verbatim>\<open>(words, max_length)\<close>; the model returns with
  them the board it mutated and the random source it consumed.
\<close>

definition populate_board ::
  "Board \<Rightarrow> int \<Rightarrow> string list \<Rightarrow> Direction list \<Rightarrow> rng
     \<Rightarrow> (error + Board \<times> string list \<times> nat \<times> rng) option" where
  "populate_board board board_size vocabulary directions g =
     (case populate_words board_size directions vocabulary (initial_state board board_size g) of
        None \<Rightarrow> None
      | Some (Inl e) \<Rightarrow> Some (Inl e)
      | Some (Inr s) \<Rightarrow> Some (Inr (st_board s, st_words s, st_max_length s, st_rng s)))"

subsection \<open>\<^verbatim>\<open>fill_empty_cells\<close>\<close>

text \<open>
  The inner loop over the columns of one row, then the outer loop over the rows; both
  run over \<^verbatim>\<open>range(board_size)\<close>. \<open>chr\<close> of a code point below 256 is
  \<open>char_of\<close>.
\<close>

fun fill_cols :: "Board \<Rightarrow> int \<Rightarrow> int list \<Rightarrow> rng \<Rightarrow> error + Board \<times> rng" where
  "fill_cols board row [] g = Inr (board, g)"
| "fill_cols board row (col # cols) g =
     (case board_get board row col of
        Inl e \<Rightarrow> Inl e
      | Inr x \<Rightarrow>
          if x = None then
            (case randint (of_char CHR ''A'') (of_char CHR ''Z'') g of
               (k, g') \<Rightarrow>
                 (case board_set board row col (char_of k) of
                    Inl e \<Rightarrow> Inl e
                  | Inr board' \<Rightarrow> fill_cols board' row cols g'))
          else fill_cols board row cols g)"

fun fill_rows :: "Board \<Rightarrow> int \<Rightarrow> int list \<Rightarrow> rng \<Rightarrow> error + Board \<times> rng" where
  "fill_rows board board_size [] g = Inr (board, g)"
| "fill_rows board board_size (row # rows) g =
     (case fill_cols board row (py_range 0 board_size) g of
        Inl e \<Rightarrow> Inl e
      | Inr (board', g') \<Rightarrow> fill_rows board' board_size rows g')"

definition fill_empty_cells :: "Board \<Rightarrow> int \<Rightarrow> rng \<Rightarrow> error + Board \<times> rng" where
  "fill_empty_cells board board_size g = fill_rows board board_size (py_range 0 board_size) g"

subsection \<open>\<^verbatim>\<open>get_vocabulary\<close>\<close>

text \<open>
  The list literal of lines 15 to 132, ten source lines to a definition, in the
  source's order and spelling.
\<close>

definition vocabulary_16_25 :: "string list" where
  "vocabulary_16_25 =
     [''SEA'', ''BASE'', ''LINE'', ''PLANE'', ''SUN'', ''TUNE'', ''PINE'', ''LENS'', ''NEARS'', ''SENSE'',
      ''ARRAY'', ''FOCUS'', ''HORIZON'', ''TRAVEL'', ''CLEAR'', ''WAVES'', ''STREAM'', ''BRIGHT'', ''SHADOW'',
      ''GLOW'', ''TRACE'', ''POINT'', ''VECTOR'', ''CIRCUIT'', ''LIGHT'', ''SHORE'', ''DEPTH'', ''CROSS'',
      ''SILENCE'', ''SOUND'', ''PATH'', ''TRACK'', ''MARK'', ''RANGE'', ''PEAK'', ''VALLEY'', ''SPACE'',
      ''TIME'', ''FIELD'', ''CLOUD'', ''STORM'', ''WIND'', ''TREE'', ''FIRE'', ''EARTH'', ''MOON'', ''STAR'',
      ''RIVER'', ''MOUNTAIN'', ''OCEAN'', ''DESERT'', ''CAVE'', ''ROCK'', ''FLOOD'', ''DREAM'', ''NIGHT'',
      ''DAY'', ''SKY'', ''BRIDGE'', ''FLOW'', ''SOURCE'', ''FALL'', ''RISE'', ''ARC'', ''SPHERE'', ''PLANE'',
      ''SHAPE'', ''FORM'', ''COLOR'', ''WALL'', ''GATE'', ''DOOR'', ''WINDOW'', ''TOWER'', ''ROAD'', ''SIGN'',
      ''PATHWAY'', ''PORT'', ''ANCHOR'', ''SAIL'', ''WHEEL'', ''CIRCLE'', ''FOCUS'', ''BEAM'', ''RAIL'',
      ''AXIS'', ''POINT'', ''LEVEL'', ''LINE'', ''ANGLE'', ''CURVE'', ''LOOP'', ''CHAIN'', ''BRANCH'']"

definition vocabulary_26_35 :: "string list" where
  "vocabulary_26_35 =
     [''ROOT'', ''LEAF'', ''BARK'', ''STEM'', ''FRUIT'', ''SEED'', ''BLOOM'', ''PETAL'', ''CROWN'',
      ''STONE'', ''SHELL'', ''WAVE'', ''TIDE'', ''CURRENT'', ''SHORE'', ''BEACH'', ''CLIFF'', ''BAY'',
      ''HARBOR'', ''PORTAL'', ''CHANNEL'', ''PILLAR'', ''ARCH'', ''COLUMN'', ''LANTERN'', ''FIREPLACE'',
      ''CAMP'', ''OUTPOST'', ''FORT'', ''CASTLE'', ''CITADEL'', ''PALACE'', ''HALL'', ''ARENA'', ''DOME'',
      ''GALLERY'', ''VAULT'', ''LAB'', ''STATION'', ''BASE'', ''HUB'', ''CENTER'', ''GRID'', ''NETWORK'',
      ''FRAME'', ''MESH'', ''LATTICE'', ''SPINE'', ''CORE'', ''NODE'', ''BOND'', ''LINK'', ''WIRE'', ''CABLE'',
      ''ABILITY'', ''ABANDON'', ''ABDUCT'', ''ABHOR'', ''ABIDE'', ''ABNORMAL'', ''ABOLISH'', ''ABOUND'', ''ABRASIVE'', ''ABSENT'',
      ''ABSOLUTE'', ''ABSORB'', ''ABSTRACT'', ''ABUNDANT'', ''ACADEMY'', ''ACCELERATE'', ''ACCENT'', ''ACCEPT'', ''ACCESS'', ''ACCIDENT'',
      ''ACCOMMODATE'', ''ACCOMPANY'', ''ACCOMPLISH'', ''ACCORD'', ''ACCOUNT'', ''ACCUSE'', ''ACQUIRE'', ''ADDRESS'', ''ADVANCE'', ''ADVERSE'',
      ''ADVICE'', ''AESTHETIC'', ''AFFECTION'', ''AFFIRM'', ''AFFORD'', ''AGGRESSIVE'', ''ALLEGRO'', ''ALREADY'', ''AMAZING'', ''ANCIENT'']"

definition vocabulary_36_45 :: "string list" where
  "vocabulary_36_45 =
     [''ANGRY'', ''ANIMAL'', ''ANALYZE'', ''ANCIENT'', ''ANXIETY'', ''APPEAL'', ''APPOINT'', ''APPROVE'', ''ARCADE'', ''ARRANGE'',
      ''ARRIVE'', ''ARTISTIC'', ''ASSEMBLE'', ''ASSAULT'', ''ASSERT'', ''ASSESS'', ''ASSIGN'', ''ASSIST'', ''ASSUME'', ''ASTRONOMY'',
      ''ATHLETE'', ''ATROCITY'', ''BALANCE'', ''BARRIER'', ''BEACON'', ''BENEFIT'', ''BICYCLE'', ''BLESSING'', ''BORROW'', ''BRAVERY'',
      ''BREATHE'', ''BROTHER'', ''CAUTION'', ''CENTER'', ''CHAMBER'', ''CLIMATE'', ''COGNITIVE'', ''COMBINE'', ''COMPASS'', ''CREATE'',
      ''CRYSTAL'', ''CURIOUS'', ''CYLINDER'', ''DARING'', ''DEFEND'', ''DECENT'', ''DELICATE'', ''DILIGENT'', ''DISEASE'', ''DISCARD'',
      ''DOMINATE'', ''DOUBT'', ''DYNAMIC'', ''EDUCATION'', ''ENDURE'', ''ELASTIC'', ''ELEVATE'', ''ENLIGHTEN'', ''ESSENCE'', ''EXCITED'',
      ''FAMOUS'', ''FASHION'', ''FREEDOM'', ''FRAGILE'', ''FROSTED'', ''GATHER'', ''GENUINE'', ''GRATEFUL'', ''GROUND'', ''GROWTH'',
      ''HARMONY'', ''HEAVEN'', ''HERITAGE'', ''IMAGINE'', ''IMPROVE'', ''INSPIRE'', ''INVADE'', ''JOURNEY'', ''JUSTICE'', ''JUNGLE'',
      ''KITCHEN'', ''KINGDOM'', ''LABORATORY'', ''LEGACY'', ''Lighthouse'', ''LIBERTY'', ''LIVELY'', ''MODERN'', ''MOTIVE'', ''MYSTIC'',
      ''NATURAL'', ''NOBLE'', ''NUCLEUS'', ''OPPOSITE'', ''ORGANIC'', ''ORIGIN'', ''PEACEFUL'', ''PLANET'', ''PLENTY'', ''PROGRESS'']"

definition vocabulary_46_55 :: "string list" where
  "vocabulary_46_55 =
     [''QUALITY'', ''QUAINT'', ''REFORM'', ''REFLECT'', ''REPOSE'', ''REVEAL'', ''RESTORE'', ''RESCUE'', ''RICH'', ''SECURE'',
      ''SENTENCE'', ''SIMPLE'', ''SOLUTION'', ''SPIRITUAL'', ''STORMY'', ''STRIVE'', ''SUCCESS'', ''SYNERGY'', ''THEORY'', ''THRIVING'',
      ''TIGER'', ''TOPICAL'', ''TRIUMPH'', ''TURBINE'', ''UNFOLD'', ''UNITE'', ''UNIQUE'', ''VACANT'', ''VIBRANT'', ''VISION'',
      ''WHOLESOME'', ''WONDER'', ''WORTH'', ''YEARNING'', ''ZEALOUS'', ''ZENITH'', ''ZEPHYR'', ''ABACUS'', ''ABDUCTED'', ''ABDUCTS'',
      ''ABIDING'', ''ABSENT'', ''ABSENTS'', ''ABSORB'', ''ABSORBED'', ''ABSORBS'', ''ACCIDENT'', ''ACCIDENTALLY'', ''ACCIDENTS'',
      ''ACCLAIM'', ''ACCLAIMED'', ''ACCLAIMS'', ''ACCOMMODATE'', ''ACCOMMODATED'', ''ACCOMMODATES'', ''ACCOMPANY'', ''ACCOMPANIED'',
      ''ACCOMPANIES'', ''ACCOMPANYING'', ''ACCOUNTABLE'', ''ACCOUNTABLY'', ''ACCOUNTED'', ''ACCOUNTING'', ''ACCRETION'',
      ''ACCREDITED'', ''ACCREDITS'', ''ACCUMULATE'', ''ACCUMULATED'', ''ACCUMULATES'', ''ACCUMULATING'', ''ACCURACY'', ''ACCURATELY'',
      ''ACCUSE'', ''ACCUSED'', ''ACCUSES'', ''ACCUSE'', ''ACCUSES'', ''ACQUIRER'', ''AFFAIR'', ''AFFAIRS'', ''AFFECTION'', ''AFFILIATED'',
      ''AFFILIATE'', ''AFFIRM'', ''AFFORDABLE'', ''AFFORDING'', ''AFFORDS'', ''AFFIX'', ''AFFIRMATION'', ''AFFIRMATIVE'']"

definition vocabulary_56_65 :: "string list" where
  "vocabulary_56_65 =
     [''AFRAID'', ''AGENT'', ''AGENT'', ''AGENTS'', ''AGGRESSIVE'', ''AGITATE'', ''AGILITY'', ''AGREE'', ''AGREEING'', ''AGREEMENT'',
      ''AGREEMENTS'', ''AGREEABLE'', ''AGREEABLES'', ''ALLEGRO'', ''ANALYSIS'', ''ANALYZE'', ''AFFECT'', ''AFFECTED'', ''AFFECTS'',
      ''AFFECTIONATE'', ''AGGRESSIVE'', ''AGAINST'', ''AGITATED'', ''ASSAULTED'', ''ATHLETE'', ''ATHLETES'', ''AGITATING'',
      ''ABOMINABLE'', ''ABHORRENT'', ''AFRICAN'', ''AGGRAVATE'', ''ABRUPT'', ''ANALOGY'', ''ANALYSIS'', ''GROWTH'', ''GROWING'',
      ''GUSHING'', ''GUSH'', ''GRADUAL'', ''GENIUS'', ''GENERATE'', ''GENUINE'', ''GENERATION'', ''GENERATIONAL'', ''GAINFUL'',
      ''GALVANIZE'', ''GAMBLE'', ''GATHERING'', ''GENUINELY'', ''GREAT'', ''GRIT'', ''GRIND'', ''GRACEFUL'', ''GLASS'', ''GENOME'',
      ''GROUND'', ''GALLANT'', ''GENERATOR'', ''GRATEFUL'', ''GAS'', ''GAME'', ''GUSH'', ''GIGANTIC'', ''GLOW'', ''GUTS'',
      ''GENUINE'', ''GRANITE'', ''GROWL'', ''GOAL'', ''GARMENT'', ''GLASS'', ''GLIMMER'', ''GUILD'', ''GARISH'', ''GARNISH'',
      ''GATE'', ''GRAND'', ''GILD'', ''GLOWING'', ''GIVE'', ''GASOLINE'', ''GADGET'', ''GAMING'', ''GAMES'', ''GOODS'',
      ''GOLD'', ''GABBLE'', ''GIBBERISH'', ''GAZE'', ''GRACE'', ''GIVEAWAY'', ''GREATNESS'', ''GRAND'', ''GLOOMY'', ''GOOD'']"

definition vocabulary_66_75 :: "string list" where
  "vocabulary_66_75 =
     [''GUARANTEE'', ''GIFT'', ''GRAND'', ''GENETIC'', ''GLOSS'', ''GLOW'', ''GRIMM'', ''GAY'',
      ''Thane'', ''Alms'', ''Bane'', ''Grim'', ''Fate'', ''Wyrm'', ''Laird'', ''Sire'', ''Knight'', ''Sword'',
      ''Fealty'', ''Crest'', ''Vale'', ''Loom'', ''Fief'', ''Wit'', ''Hearth'', ''Rune'', ''Pagan'', ''Moot'',
      ''Wit'', ''Froth'', ''Glen'', ''Harold'', ''Lance'', ''Bane'', ''Vane'', ''Wold'', ''Lamb'', ''Hallow'',
      ''Gale'', ''Valkyrie'', ''Foe'', ''Doom'', ''Myth'', ''Rook'', ''Briar'', ''Trove'', ''Grave'', ''Lore'',
      ''Vow'', ''Oath'', ''Fleet'', ''Mire'', ''Spire'', ''Gloom'', ''Thane'', ''Cleave'', ''Sear'', ''Wane'',
      ''Vast'', ''Elder'', ''Stone'', ''Mead'', ''Forge'', ''Rage'', ''Valkyr'', ''Mist'', ''Wraith'', ''Henge'',
      ''Fate'', ''Thrift'', ''Cairn'', ''Fled'', ''Cleave'', ''Raven'', ''Rogue'', ''Warden'', ''Vile'', ''Ash'',
      ''Weald'', ''Gore'', ''Grim'', ''Keen'', ''Wrath'', ''Blight'', ''Crown'', ''Vail'', ''Thorn'', ''Flesh'',
      ''Troll'', ''Scorn'', ''Blade'', ''Ghoul'', ''Fell'', ''Jarl'', ''Fey'', ''Dread'', ''Reeve'', ''Purge'']"

definition vocabulary_76_85 :: "string list" where
  "vocabulary_76_85 =
     [''Frost'', ''Vile'', ''Seer'', ''Vane'', ''Fodder'', ''Prowl'', ''Mire'', ''Stray'', ''Doom'', ''Rook'',
      ''Pale'', ''Reck'', ''Thorn'', ''Moth'', ''Hag'', ''Ravine'', ''Ruin'', ''Gale'', ''Rook'', ''Plague'',
      ''Rime'', ''Haunt'', ''Hound'', ''Purge'', ''Cairn'', ''Altar'', ''Ashen'', ''Rage'', ''Flare'', ''Pest'',
      ''Shade'', ''Thrift'', ''Ravage'', ''Loom'', ''Mark'', ''Grit'', ''Sever'', ''Tale'', ''Witch'', ''Worm'',
      ''Glade'', ''Skull'', ''Crux'', ''Veld'', ''Gloom'', ''Crypt'', ''Blaze'', ''Grave'', ''Forge'', ''Vanquish'',
      ''ABILITY'', ''ACCESS'', ''ACCOUNT'', ''ACHIEVE'', ''ACQUIRE'', ''ACTION'', ''ACTIVITY'', ''ADDITION'', ''ADDRESS'',
      ''ADVANCE'', ''ADVENTURE'', ''ADVICE'', ''AFFECT'', ''AGENCY'', ''AGREE'', ''AIRPORT'', ''ALERT'', ''ALIGN'', ''ALIVE'',
      ''AMAZING'', ''ANALYZE'', ''ANCIENT'', ''ANGER'', ''ANIMAL'', ''ANSWER'', ''APPEAL'', ''APPLY'', ''APPROACH'', ''ARCHIVE'',
      ''AREA'', ''ARGUMENT'', ''ARRANGE'', ''ARREST'', ''ARRIVAL'', ''ARTICLE'', ''ARTIST'', ''ASPECT'', ''ASSIGN'', ''ASSIST'',
      ''ASSUME'', ''ASSURE'', ''ATTACH'', ''ATTACK'', ''ATTEMPT'', ''ATTEND'', ''ATTRACT'', ''AUTHENTIC'', ''AUTHORITY'']"

definition vocabulary_86_95 :: "string list" where
  "vocabulary_86_95 =
     [''AWESOME'', ''BALANCE'', ''BANDAGE'', ''BARRIER'', ''BATTLE'', ''BEAUTY'', ''BECOME'', ''BELIEVE'', ''BENEFIT'',
      ''BETRAY'', ''BIRTHDAY'', ''BLADE'', ''BLANKET'', ''BLESS'', ''BLOCK'', ''BOARD'', ''BOMBARD'', ''BONUS'', ''BORDER'',
      ''BOTTLE'', ''BRAIN'', ''BRANCH'', ''BREATH'', ''BRIDGE'', ''BRIGHT'', ''BROKEN'', ''BUDGET'', ''BULLET'', ''BUNDLE'',
      ''BURDEN'', ''BUTTON'', ''CABINET'', ''CAMERA'', ''CAMPAIGN'', ''CANDIDATE'', ''CAPACITY'', ''CAPTURE'', ''CAREER'',
      ''CARRIAGE'', ''CARRIER'', ''CAUTION'', ''CELEBRATE'', ''CENTER'', ''CENTRAL'', ''CEREMONY'', ''CHAIR'', ''CHALLENGE'',
      ''CHAMBER'', ''CHANGE'', ''CHANNEL'', ''CHARGE'', ''CHARITY'', ''CHARTER'', ''CHASE'', ''CHECK'', ''CHIEF'', ''CHOICE'',
      ''CIRCLE'', ''CITIZEN'', ''CLARIFY'', ''CLASSIC'', ''CLEANSE'', ''CLIENT'', ''CLIMATE'', ''CLOSURE'', ''CLUSTER'',
      ''COLLECT'', ''COLLEGE'', ''COLONY'', ''COLOR'', ''COMBAT'', ''COMEDY'', ''COMMAND'', ''COMMENT'', ''COMMIT'',
      ''COMMON'', ''COMMUNICATE'', ''COMPARE'', ''COMPANY'', ''COMPETE'', ''COMPILE'', ''COMPLEX'', ''COMPLY'', ''CONCEPT'',
      ''CONCERN'', ''CONCLUDE'', ''CONDUCT'', ''CONFERENCE'', ''CONFIRM'', ''CONFLICT'', ''CONFRONT'', ''CONGRESS'']"

definition vocabulary_96_105 :: "string list" where
  "vocabulary_96_105 =
     [''CONNECT'', ''CONQUER'', ''CONSENT'', ''CONSIDER'', ''CONSIST'', ''CONSTANT'', ''CONSTRUCT'', ''CONSULT'', ''CONTACT'',
      ''CONTAIN'', ''CONTENT'', ''CONTEST'', ''CONTEXT'', ''CONTINUE'', ''CONTRACT'', ''CONTROL'', ''CONVERT'', ''CONVINCE'',
      ''COOPERATE'', ''COPYRIGHT'', ''CORNER'', ''CORRECT'', ''CORRIDOR'', ''COUNTRY'', ''COURAGE'', ''COURSE'', ''CREATE'',
      ''CREATOR'', ''CREDIT'', ''CRISIS'', ''CRITICAL'', ''CROWD'', ''CULTURE'', ''CUSTOM'', ''CYCLE'', ''DAMAGE'', ''DANGER'',
      ''DATABASE'', ''DEADLINE'', ''DEBATE'', ''DECIDE'', ''DECLARE'', ''DECLINE'', ''DEDICATE'', ''DEFEAT'', ''DEFEND'',
      ''DEFENSE'', ''DEFINE'', ''DEGREE'', ''DELAY'', ''DELETE'', ''DELIVER'', ''DEMAND'', ''DEMONSTRATE'', ''DENY'',
      ''DEPART'', ''DEPEND'', ''DEPOSIT'', ''DEPRESS'', ''DERIVE'', ''DESCRIBE'', ''DESERT'', ''DESIGN'', ''DESIRE'',
      ''DETECT'', ''DETERMINE'', ''DEVELOP'', ''DEVICE'', ''DIAGNOSE'', ''DIFFER'', ''DIGITAL'', ''DIGNITY'', ''DIRECT'',
      ''DISABLE'', ''DISAGREE'', ''DISAPPEAR'', ''DISARM'', ''DISCOUNT'', ''DISCOVER'', ''DISCUSS'', ''DISMISS'', ''DISPLAY'',
      ''DISPOSE'', ''DISTANCE'', ''DISTURB'', ''DIVIDE'', ''DIVORCE'', ''DOCTOR'', ''DOCUMENT'', ''DOMAIN'', ''DOMINATE'']"

definition vocabulary_106_115 :: "string list" where
  "vocabulary_106_115 =
     [''DONATE'', ''DOUBLE'', ''DOUBT'', ''DOWNLOAD'', ''DRAMA'', ''DREAM'', ''DRESS'', ''DRIVE'', ''DROUGHT'', ''DURABLE'',
      ''DYNAMIC'', ''EAGER'', ''EARLY'', ''EARNEST'', ''EARTH'', ''EASE'', ''EAST'', ''EASY'', ''ECONOMIC'', ''EDITION'',
      ''EDITOR'', ''EDUCATE'', ''EFFECT'', ''EFFORT'', ''ELABORATE'', ''ELECTION'', ''ELECTRIC'', ''ELEVATE'', ''ELIMINATE'',
      ''EMERGENCY'', ''EMOTION'', ''EMPHASIS'', ''EMPOWER'', ''ENABLE'', ''ENACT'', ''ENCOUNTER'', ''ENDANGER'', ''ENDLESS'',
      ''ENDORSE'', ''ENDURE'', ''ENERGY'', ''ENGAGE'', ''ENGINE'', ''ENHANCE'', ''ENJOY'', ''ENLARGE'', ''ENLIST'', ''ENRICH'',
      ''ENSURE'', ''ENTERPRISE'', ''ENTIRE'', ''ENTITLE'', ''ENTRY'', ''ENVIRONMENT'', ''EPISODE'', ''EQUALITY'', ''EQUATION'',
      ''EQUIP'', ''ESSENCE'', ''ESTABLISH'', ''ESTIMATE'', ''ETHICS'', ''EVACUATE'', ''EVALUATE'', ''EVENT'', ''EVIDENCE'',
      ''EVOLVE'', ''EXACT'', ''EXAMPLE'', ''EXCEED'', ''EXCEL'', ''EXCEPT'', ''EXCHANGE'', ''EXCITE'', ''EXECUTE'', ''EXEMPT'',
      ''EXERCISE'', ''EXHAUST'', ''EXHIBIT'', ''EXIST'', ''EXPAND'', ''EXPECT'', ''EXPENSE'', ''EXPERIENCE'', ''EXPLAIN'',
      ''EXPLORE'', ''EXPORT'', ''EXPOSE'', ''EXPRESS'', ''EXTEND'', ''EXTREME'', ''EYEWITNESS'', ''FABRIC'', ''FACTORY'']"

definition vocabulary_116_125 :: "string list" where
  "vocabulary_116_125 =
     [''FAILURE'', ''FAITH'', ''FAMILY'', ''FAMOUS'', ''FANTASY'', ''FARMLAND'', ''FASHION'', ''FEATURE'', ''FEDERAL'',
      ''FEELING'', ''FESTIVAL'', ''FIBER'', ''FICTION'', ''FIELD'', ''FIERCE'', ''FIGHTER'', ''FIGURE'', ''FILM'', ''FILTER'',
      ''FINALIZE'', ''FINANCE'', ''FINDING'', ''FIREWORK'', ''FIRST'', ''FIXTURE'', ''FLAVOR'', ''FLEXIBLE'', ''FLIGHT'',
      ''FLORA'', ''FLOURISH'', ''FOCUS'', ''FOLLOW'', ''FOOTBALL'', ''FOREIGN'', ''FORGE'', ''FORMAL'', ''FORMULA'', ''FORTUNE'',
      ''ABLE'', ''ABUSE'', ''ACE'', ''ACID'', ''ACT'', ''ADD'', ''AIR'', ''AIM'', ''ALONE'', ''AND'',
      ''ANGER'', ''ANIMAL'', ''APPLE'', ''AREA'', ''ARM'', ''ART'', ''ASLEEP'', ''AWAKE'', ''BACK'', ''BALL'',
      ''BAND'', ''BANK'', ''BAR'', ''BASE'', ''BEAM'', ''BEAR'', ''BELL'', ''BILL'', ''BIRD'', ''BRAIN'',
      ''BROOK'', ''BUS'', ''CAGE'', ''CAP'', ''CAR'', ''CAST'', ''CAT'', ''COLD'', ''COLOR'', ''CROWN'',
      ''DART'', ''DAY'', ''DOG'', ''DOOR'', ''DOWN'', ''DREAM'', ''EAR'', ''EDGE'', ''EGG'', ''ELBOW'',
      ''EYE'', ''FALL'', ''FARM'', ''FAST'', ''FEAR'', ''FIRE'', ''FIGHT'', ''FOOT'', ''GAME'', ''GLOW'']"

definition vocabulary_126_131 :: "string list" where
  "vocabulary_126_131 =
     [''GOLD'', ''GRASS'', ''GROUND'', ''HAND'', ''HILL'', ''HOME'', ''HOPE'', ''HURT'', ''JUMP'', ''JUDGE'',
      ''KING'', ''KISS'', ''KNIFE'', ''LACE'', ''LAND'', ''LION'', ''LAMP'', ''LINE'', ''LIST'', ''LOST'',
      ''MAP'', ''MATCH'', ''MOUSE'', ''NOISE'', ''NIGHT'', ''OPEN'', ''OPINION'', ''PARK'', ''PEN'', ''PINE'',
      ''PLACE'', ''PLANT'', ''PLUG'', ''RACE'', ''RAIN'', ''ROAD'', ''RISE'', ''RING'', ''SAND'', ''SING'',
      ''SEA'', ''BASE'', ''LINE'', ''PLANE'', ''SUN'',
      ''TUNE'', ''PINE'', ''LENS'', ''NEARS'', ''SENSE'']"

definition vocabulary_literal :: "string list" where
  "vocabulary_literal =
     vocabulary_16_25 @
     vocabulary_26_35 @
     vocabulary_36_45 @
     vocabulary_46_55 @
     vocabulary_56_65 @
     vocabulary_66_75 @
     vocabulary_76_85 @
     vocabulary_86_95 @
     vocabulary_96_105 @
     vocabulary_106_115 @
     vocabulary_116_125 @
     vocabulary_126_131"

text \<open>
  \<^verbatim>\<open>str.upper\<close>, on the ASCII letters the literal is made of.
\<close>

definition char_upper :: "char \<Rightarrow> char" where
  "char_upper ch =
     (let k = (of_char ch :: nat)
      in if of_char CHR ''a'' \<le> k \<and> k \<le> of_char CHR ''z'' then char_of (k - 32) else ch)"

definition upper :: "string \<Rightarrow> string" where
  "upper word = map char_upper word"

text \<open>
  \<^verbatim>\<open>list(set(vocabulary))\<close> lists each distinct string once, in an order that
  the hash seed of the process fixes. The argument \<open>list_of_set\<close> is that
  enumeration; \<open>remdups\<close> is one.
\<close>

definition get_vocabulary :: "(string list \<Rightarrow> string list) \<Rightarrow> rng \<Rightarrow> string list \<times> rng" where
  "get_vocabulary list_of_set g =
     shuffle (map upper (list_of_set vocabulary_literal)) g"

subsection \<open>\<^verbatim>\<open>main\<close>\<close>

text \<open>
  Lines 228 to 232 of \<^verbatim>\<open>main\<close>, which build the board and the word list that the
  rest of \<^verbatim>\<open>main\<close> formats and writes. \<open>generate\<close> has the board size and the
  vocabulary as arguments; \<open>main\<close> calls it with the constants of the source.
\<close>

definition generate ::
  "int \<Rightarrow> string list \<Rightarrow> Direction list \<Rightarrow> rng
     \<Rightarrow> (error + Board \<times> string list \<times> nat \<times> rng) option" where
  "generate board_size vocabulary directions g =
     (case populate_board (init_board board_size) board_size vocabulary directions g of
        None \<Rightarrow> None
      | Some (Inl e) \<Rightarrow> Some (Inl e)
      | Some (Inr (board, words, max_length, g')) \<Rightarrow>
          (case fill_empty_cells board board_size g' of
             Inl e \<Rightarrow> Some (Inl e)
           | Inr (filled, g'') \<Rightarrow> Some (Inr (filled, words, max_length, g''))))"

definition main ::
  "(string list \<Rightarrow> string list) \<Rightarrow> rng
     \<Rightarrow> (error + Board \<times> string list \<times> nat \<times> rng) option" where
  "main list_of_set g =
     (case get_vocabulary list_of_set g of
        (vocabulary, g') \<Rightarrow> generate 20 vocabulary create_all_directions g')"

section \<open>Vocabulary of the properties\<close>

text \<open>
  A board is well formed for size \<open>n\<close> when it has \<open>n\<close> rows of \<open>n\<close> cells;
  \<open>in_grid\<close> is membership of \<open>[0, n)\<close> in both coordinates; \<open>cell_at\<close> reads
  a cell of the grid; \<open>path_row\<close> and \<open>path_col\<close> give the cell
  \<open>position + i * direction\<close>.
\<close>

definition wf_board :: "Board \<Rightarrow> int \<Rightarrow> bool" where
  "wf_board board n \<longleftrightarrow>
     int (length board) = n \<and> list_all (\<lambda>row. int (length row) = n) board"

definition in_grid :: "int \<Rightarrow> int \<Rightarrow> int \<Rightarrow> bool" where
  "in_grid n r c \<longleftrightarrow> 0 \<le> r \<and> r < n \<and> 0 \<le> c \<and> c < n"

definition cell_at :: "Board \<Rightarrow> int \<Rightarrow> int \<Rightarrow> cell" where
  "cell_at board r c = board ! nat r ! nat c"

definition path_row :: "Position \<Rightarrow> Direction \<Rightarrow> int \<Rightarrow> int" where
  "path_row position direction i = fst position + i * fst direction"

definition path_col :: "Position \<Rightarrow> Direction \<Rightarrow> int \<Rightarrow> int" where
  "path_col position direction i = snd position + i * snd direction"

text \<open>
  \<open>cell_accepts\<close>: the \<open>k\<close>-th cell of the path is in the grid and is empty or
  holds the \<open>k\<close>-th character. \<open>word_at\<close>: the word is written on the board along
  the path, inside the grid.
\<close>

definition cell_accepts :: "Board \<Rightarrow> int \<Rightarrow> string \<Rightarrow> Position \<Rightarrow> Direction \<Rightarrow> nat \<Rightarrow> bool" where
  "cell_accepts board n word position direction k \<longleftrightarrow>
     in_grid n (path_row position direction (int k)) (path_col position direction (int k)) \<and>
     (cell_at board (path_row position direction (int k)) (path_col position direction (int k)) = None \<or>
      cell_at board (path_row position direction (int k)) (path_col position direction (int k))
        = Some (word ! k))"

definition word_at :: "Board \<Rightarrow> int \<Rightarrow> string \<Rightarrow> Position \<Rightarrow> Direction \<Rightarrow> bool" where
  "word_at board n word position direction \<longleftrightarrow>
     list_all (\<lambda>k.
        in_grid n (path_row position direction (int k)) (path_col position direction (int k)) \<and>
        cell_at board (path_row position direction (int k)) (path_col position direction (int k))
          = Some (word ! k)) [0..<length word]"

definition uppercase_letter :: "char \<Rightarrow> bool" where
  "uppercase_letter ch \<longleftrightarrow>
     (of_char CHR ''A'' :: nat) \<le> of_char ch \<and> (of_char ch :: nat) \<le> of_char CHR ''Z''"

text \<open>
  \<open>letters_kept\<close>: every letter of the first board is at the same cell of the second.
  \<open>filled_from\<close>: moreover every cell that was empty is empty still or holds an
  uppercase letter. \<open>letters_uppercase\<close>: every letter of the board is uppercase.
\<close>

definition letters_kept :: "int \<Rightarrow> Board \<Rightarrow> Board \<Rightarrow> bool" where
  "letters_kept n board board' \<longleftrightarrow>
     list_all (\<lambda>r. list_all (\<lambda>c. case cell_at board r c of None \<Rightarrow> True
                             | Some ch \<Rightarrow> cell_at board' r c = Some ch)
                 (py_range 0 n)) (py_range 0 n)"

definition filled_from :: "int \<Rightarrow> Board \<Rightarrow> Board \<Rightarrow> bool" where
  "filled_from n board board' \<longleftrightarrow>
     list_all (\<lambda>r. list_all (\<lambda>c. case cell_at board r c of
                               Some ch \<Rightarrow> cell_at board' r c = Some ch
                             | None \<Rightarrow> (case cell_at board' r c of
                                          None \<Rightarrow> True
                                        | Some ch \<Rightarrow> uppercase_letter ch))
                 (py_range 0 n)) (py_range 0 n)"

definition letters_uppercase :: "int \<Rightarrow> Board \<Rightarrow> bool" where
  "letters_uppercase n board \<longleftrightarrow>
     list_all (\<lambda>r. list_all (\<lambda>c. case cell_at board r c of None \<Rightarrow> True
                             | Some ch \<Rightarrow> uppercase_letter ch)
                 (py_range 0 n)) (py_range 0 n)"

text \<open>\<open>ascii_letter\<close>: the character is one of the 52 letters of ASCII.\<close>

definition ascii_letter :: "char \<Rightarrow> bool" where
  "ascii_letter ch \<longleftrightarrow>
     (let k = (of_char ch :: nat)
      in (of_char CHR ''A'' \<le> k \<and> k \<le> of_char CHR ''Z'') \<or>
         (of_char CHR ''a'' \<le> k \<and> k \<le> of_char CHR ''z''))"

section \<open>Boards, paths and the two word loops\<close>

lemma board_get_in_grid:
  assumes "wf_board board n" "in_grid n r c"
  shows "board_get board r c = Inr (cell_at board r c)"
proof -
  from assms have len: "int (length board) = n" and r: "0 \<le> r" "r < n" and c: "0 \<le> c" "c < n"
    by (simp_all add: wf_board_def in_grid_def)
  have "nat r < length board" using len r by linarith
  then have "board ! nat r \<in> set board" by simp
  with assms(1) have "int (length (board ! nat r)) = n"
    by (simp add: wf_board_def list_all_iff)
  with len r c show ?thesis
    by (simp add: board_get_def py_getitem_def py_norm_index_def cell_at_def)
qed

lemma can_place_from_iff:
  assumes "wf_board board n"
  shows "can_place_from board n i word position direction =
     Inr (\<forall>k<length word.
            in_grid n (path_row position direction (i + int k)) (path_col position direction (i + int k)) \<and>
            (cell_at board (path_row position direction (i + int k)) (path_col position direction (i + int k)) = None \<or>
             cell_at board (path_row position direction (i + int k)) (path_col position direction (i + int k)) = Some (word ! k)))"
proof (induction word arbitrary: i)
  case Nil
  show ?case by simp
next
  case (Cons ch rest)
  let ?r = "path_row position direction i" and ?c = "path_col position direction i"
  show ?case
  proof (cases "in_grid n ?r ?c")
    case False
    then have "can_place_from board n i (ch # rest) position direction = Inr False"
      by (auto simp: in_grid_def path_row_def path_col_def Let_def)
    moreover from False have "\<not> (\<forall>k<length (ch # rest).
            in_grid n (path_row position direction (i + int k)) (path_col position direction (i + int k)) \<and>
            (cell_at board (path_row position direction (i + int k)) (path_col position direction (i + int k)) = None \<or>
             cell_at board (path_row position direction (i + int k)) (path_col position direction (i + int k)) = Some ((ch # rest) ! k)))"
      by (auto intro: exI[of _ 0])
    ultimately show ?thesis by simp
  next
    case True
    have get: "board_get board ?r ?c = Inr (cell_at board ?r ?c)"
      by (rule board_get_in_grid[OF assms True])
    have shift: "\<And>k. i + int (Suc k) = i + 1 + int k" by simp
    from True have nb: "\<not> (?r < 0 \<or> ?r \<ge> n \<or> ?c < 0 \<or> ?c \<ge> n)"
      by (auto simp: in_grid_def)
    show ?thesis
      using True get nb Cons.IH[of "i + 1"]
      apply (simp add: Let_def All_less_Suc2 shift del: of_nat_Suc)
      by (simp add: path_row_def path_col_def)
  qed
qed

lemma board_set_in_grid:
  assumes "wf_board board n" "in_grid n r c"
  shows "\<exists>board'. board_set board r c ch = Inr board' \<and> wf_board board' n \<and>
           (\<forall>r' c'. in_grid n r' c' \<longrightarrow>
              cell_at board' r' c' = (if r' = r \<and> c' = c then Some ch else cell_at board r' c'))"
proof -
  from assms have len: "int (length board) = n" and r: "0 \<le> r" "r < n" and c: "0 \<le> c" "c < n"
    by (simp_all add: wf_board_def in_grid_def)
  have rlt: "nat r < length board" using len r by linarith
  then have "board ! nat r \<in> set board" by simp
  with assms(1) have rowlen: "int (length (board ! nat r)) = n"
    by (simp add: wf_board_def list_all_iff)
  let ?b = "board[nat r := (board ! nat r)[nat c := Some ch]]"
  have eq: "board_set board r c ch = Inr ?b"
    using len r c rowlen
    by (simp add: board_set_def py_getitem_def py_setitem_def py_norm_index_def)
  have wf: "wf_board ?b n"
    using assms(1) rowlen
    by (auto simp: wf_board_def list_all_iff dest!: set_update_subset_insert[THEN subsetD])
  have cells: "\<forall>r' c'. in_grid n r' c' \<longrightarrow>
              cell_at ?b r' c' = (if r' = r \<and> c' = c then Some ch else cell_at board r' c')"
  proof (intro allI impI)
    fix r' c' assume g: "in_grid n r' c'"
    then have r': "0 \<le> r'" "r' < n" and c': "0 \<le> c'" "c' < n" by (simp_all add: in_grid_def)
    have r'lt: "nat r' < length board" using len r' by linarith
    have clt: "nat c < length (board ! nat r)" using rowlen c by linarith
    show "cell_at ?b r' c' = (if r' = r \<and> c' = c then Some ch else cell_at board r' c')"
      using r r' c c' rlt r'lt clt
      by (auto simp: cell_at_def nth_list_update nat_eq_iff)
  qed
  from eq wf cells show ?thesis by blast
qed

lemma path_distinct:
  assumes "direction \<noteq> (0, 0)" "i \<noteq> j"
  shows "(path_row position direction i, path_col position direction i)
       \<noteq> (path_row position direction j, path_col position direction j)"
  using assms by (cases direction) (auto simp: path_row_def path_col_def)

lemma place_from_path:
  assumes "wf_board board n" "direction \<noteq> (0, 0)"
    and "\<forall>k<length word. in_grid n (path_row position direction (i + int k))
                                   (path_col position direction (i + int k))"
  shows "\<exists>board'. place_from board i word position direction = Inr board' \<and> wf_board board' n \<and>
           (\<forall>k<length word. cell_at board' (path_row position direction (i + int k))
                                          (path_col position direction (i + int k)) = Some (word ! k)) \<and>
           (\<forall>r c. in_grid n r c \<longrightarrow>
              (\<forall>k<length word. (r, c) \<noteq> (path_row position direction (i + int k),
                                           path_col position direction (i + int k))) \<longrightarrow>
              cell_at board' r c = cell_at board r c)"
  using assms
proof (induction word arbitrary: board i)
  case Nil
  then show ?case by simp
next
  case (Cons ch rest)
  let ?r = "path_row position direction i" and ?c = "path_col position direction i"
  have shift: "\<And>k. i + int (Suc k) = i + 1 + int k" by simp
  from Cons.prems(3) have here: "in_grid n ?r ?c"
    and later: "\<forall>k<length rest. in_grid n (path_row position direction (i + 1 + int k))
                                   (path_col position direction (i + 1 + int k))"
    by (auto simp: All_less_Suc2 shift simp del: of_nat_Suc)
  from board_set_in_grid[OF Cons.prems(1) here, of ch]
  obtain b1 where b1: "board_set board ?r ?c ch = Inr b1" "wf_board b1 n"
    and b1cells: "\<And>r' c'. in_grid n r' c' \<Longrightarrow>
              cell_at b1 r' c' = (if r' = ?r \<and> c' = ?c then Some ch else cell_at board r' c')"
    by blast
  from Cons.IH[OF b1(2) Cons.prems(2) later]
  obtain b2 where b2: "place_from b1 (i + 1) rest position direction = Inr b2" "wf_board b2 n"
    and on: "\<And>k. k < length rest \<Longrightarrow> cell_at b2 (path_row position direction (i + 1 + int k))
                                          (path_col position direction (i + 1 + int k)) = Some (rest ! k)"
    and off: "\<And>r c. in_grid n r c \<Longrightarrow>
              (\<forall>k<length rest. (r, c) \<noteq> (path_row position direction (i + 1 + int k),
                                           path_col position direction (i + 1 + int k))) \<Longrightarrow>
              cell_at b2 r c = cell_at b1 r c"
    by blast
  have run: "place_from board i (ch # rest) position direction = Inr b2"
    using b1(1) b2(1) by (simp add: path_row_def path_col_def Let_def)
  have first: "cell_at b2 ?r ?c = Some ch"
  proof -
    have "\<forall>k<length rest. (?r, ?c) \<noteq> (path_row position direction (i + 1 + int k),
                                           path_col position direction (i + 1 + int k))"
    proof (intro allI impI)
      fix k
      have "i \<noteq> i + 1 + int k" by simp
      from path_distinct[OF Cons.prems(2) this]
      show "(?r, ?c) \<noteq> (path_row position direction (i + 1 + int k),
                                           path_col position direction (i + 1 + int k))" .
    qed
    from off[OF here this] b1cells[OF here] show ?thesis by simp
  qed
  have onall: "\<forall>k<length (ch # rest). cell_at b2 (path_row position direction (i + int k))
                                          (path_col position direction (i + int k)) = Some ((ch # rest) ! k)"
    using first on by (simp add: All_less_Suc2 shift del: of_nat_Suc)
  have offall: "\<forall>r c. in_grid n r c \<longrightarrow>
              (\<forall>k<length (ch # rest). (r, c) \<noteq> (path_row position direction (i + int k),
                                           path_col position direction (i + int k))) \<longrightarrow>
              cell_at b2 r c = cell_at board r c"
  proof (intro allI impI)
    fix r c assume g: "in_grid n r c"
      and ne: "\<forall>k<length (ch # rest). (r, c) \<noteq> (path_row position direction (i + int k),
                                           path_col position direction (i + int k))"
    from ne have ne0: "(r, c) \<noteq> (?r, ?c)"
      and nel: "\<forall>k<length rest. (r, c) \<noteq> (path_row position direction (i + 1 + int k),
                                           path_col position direction (i + 1 + int k))"
      by (auto simp: All_less_Suc2 shift simp del: of_nat_Suc)
    from off[OF g nel] b1cells[OF g] ne0 show "cell_at b2 r c = cell_at board r c" by auto
  qed
  from run b2(2) onall offall show ?case by blast
qed


lemma word_at_iff:
  "word_at board n word position direction \<longleftrightarrow>
     (\<forall>k<length word.
        in_grid n (path_row position direction (int k)) (path_col position direction (int k)) \<and>
        cell_at board (path_row position direction (int k)) (path_col position direction (int k))
          = Some (word ! k))"
  by (auto simp: word_at_def list_all_iff)

lemma can_place_word_accepts:
  assumes "wf_board board n"
  shows "can_place_word board n word position direction =
           Inr (\<forall>k<length word. cell_accepts board n word position direction k)"
  using can_place_from_iff[OF assms, of 0 word position direction]
  by (simp add: can_place_word_def cell_accepts_def)

lemma place_word_effect:
  assumes wf: "wf_board board n" and nz: "direction \<noteq> (0, 0)"
    and can: "can_place_word board n word position direction = Inr True"
  shows "\<exists>board'. place_word board word position direction = Inr board' \<and> wf_board board' n \<and>
           word_at board' n word position direction \<and>
           (\<forall>r c ch. in_grid n r c \<longrightarrow> cell_at board r c = Some ch \<longrightarrow> cell_at board' r c = Some ch)"
proof -
  from can can_place_word_accepts[OF wf, of word position direction]
  have acc: "\<And>k. k < length word \<Longrightarrow> cell_accepts board n word position direction k"
    by simp
  then have inb: "\<forall>k<length word. in_grid n (path_row position direction (0 + int k))
                                   (path_col position direction (0 + int k))"
    by (simp add: cell_accepts_def)
  from place_from_path[OF wf nz inb]
  obtain b' where run: "place_from board 0 word position direction = Inr b'" and wf': "wf_board b' n"
    and on: "\<And>k. k < length word \<Longrightarrow> cell_at b' (path_row position direction (int k))
                                          (path_col position direction (int k)) = Some (word ! k)"
    and off: "\<And>r c. in_grid n r c \<Longrightarrow>
              (\<forall>k<length word. (r, c) \<noteq> (path_row position direction (int k),
                                           path_col position direction (int k))) \<Longrightarrow>
              cell_at b' r c = cell_at board r c"
    by auto
  have wat: "word_at b' n word position direction"
    using on acc by (simp add: word_at_iff cell_accepts_def)
  have keep: "\<forall>r c ch. in_grid n r c \<longrightarrow> cell_at board r c = Some ch \<longrightarrow> cell_at b' r c = Some ch"
  proof (intro allI impI)
    fix r c ch assume g: "in_grid n r c" and old: "cell_at board r c = Some ch"
    show "cell_at b' r c = Some ch"
    proof (cases "\<exists>k<length word. (r, c) = (path_row position direction (int k),
                                           path_col position direction (int k))")
      case True
      then obtain k where k: "k < length word" and rc: "r = path_row position direction (int k)"
        "c = path_col position direction (int k)" by auto
      from acc[OF k] old rc have "word ! k = ch" by (simp add: cell_accepts_def)
      with on[OF k] rc show ?thesis by simp
    next
      case False
      then have "\<forall>k<length word. (r, c) \<noteq> (path_row position direction (int k),
                                           path_col position direction (int k))" by blast
      from off[OF g this] old show ?thesis by simp
    qed
  qed
  from run wf' wat keep show ?thesis by (auto simp: place_word_def)
qed

lemma word_at_mono:
  assumes "word_at board n word position direction"
    and "\<forall>r c ch. in_grid n r c \<longrightarrow> cell_at board r c = Some ch \<longrightarrow> cell_at board' r c = Some ch"
  shows "word_at board' n word position direction"
  using assms by (simp add: word_at_iff)

section \<open>The random source and one pass of the attempt loop\<close>

lemma set_py_range: "set (py_range a b) = {i. a \<le> i \<and> i < b}"
  by (auto simp: py_range_def)

lemma letters_kept_iff:
  "letters_kept n board board' \<longleftrightarrow>
     (\<forall>r c ch. in_grid n r c \<longrightarrow> cell_at board r c = Some ch \<longrightarrow> cell_at board' r c = Some ch)"
  by (auto simp: letters_kept_def list_all_iff set_py_range in_grid_def split: option.splits)

lemma letters_kept_refl: "letters_kept n board board"
  by (simp add: letters_kept_iff)

lemma letters_kept_trans:
  "letters_kept n b1 b2 \<Longrightarrow> letters_kept n b2 b3 \<Longrightarrow> letters_kept n b1 b3"
  by (simp add: letters_kept_iff)

lemma word_at_kept:
  "word_at board n word position direction \<Longrightarrow> letters_kept n board board' \<Longrightarrow>
   word_at board' n word position direction"
  by (simp add: word_at_iff letters_kept_iff)

lemma randbelow_less: "0 < n \<Longrightarrow> fst (randbelow n g) < n"
  by (cases g) simp_all

lemma shuffle_from_mset:
  "i < length xs \<Longrightarrow> mset (fst (shuffle_from i xs g)) = mset xs"
proof (induction i arbitrary: xs g)
  case 0
  show ?case by simp
next
  case (Suc i)
  obtain j g' where rb: "randbelow (Suc i + 1) g = (j, g')" by (cases "randbelow (Suc i + 1) g")
  have "fst (randbelow (Suc i + 1) g) < Suc i + 1" by (rule randbelow_less) simp
  with rb Suc.prems have j: "j < length xs" by simp
  let ?ys = "xs[Suc i := xs ! j, j := xs ! Suc i]"
  have "mset ?ys = mset xs" using Suc.prems j by (simp add: mset_swap)
  moreover have "mset (fst (shuffle_from i ?ys g')) = mset ?ys"
    using Suc.prems by (intro Suc.IH) simp
  ultimately show ?case using rb by simp
qed

lemma shuffle_mset: "mset (fst (shuffle xs g)) = mset xs"
proof (cases xs)
  case Nil
  then show ?thesis by (simp add: shuffle_def)
next
  case (Cons x rest)
  then show ?thesis by (simp add: shuffle_def shuffle_from_mset)
qed

lemma shuffle_set: "shuffle xs g = (ys, g') \<Longrightarrow> set ys = set xs"
  using shuffle_mset[of xs g] by (metis fst_conv set_mset_mset)

lemma choice_member: "choice xs g = Inr (x, g') \<Longrightarrow> x \<in> set xs"
proof -
  assume a: "choice xs g = Inr (x, g')"
  then have ne: "xs \<noteq> []" by (auto simp: choice_def split: if_splits)
  then have "fst (randbelow (length xs) g) < length xs" by (intro randbelow_less) simp
  with a ne show ?thesis by (auto simp: choice_def split: prod.splits)
qed

lemma choice_nonempty: "xs \<noteq> [] \<Longrightarrow> \<exists>x g'. choice xs g = Inr (x, g')"
  by (simp add: choice_def split: prod.splits)

lemma attempt_step_positions:
  assumes "attempt_step n word directions s = Inr (s', placed')"
  shows "st_positions s' = butlast (st_positions s) \<and>
         st_pop_positions s' = st_pop_positions s @ [last (st_positions s)]"
  using assms
  by (auto simp: attempt_step_def Let_def split: sum.splits prod.splits bool.splits)

lemma attempt_step_effect:
  assumes wf: "wf_board (st_board s) n" and nz: "(0, 0) \<notin> set directions"
    and step: "attempt_step n word directions s = Inr (s', placed')"
  shows "wf_board (st_board s') n \<and> letters_kept n (st_board s) (st_board s') \<and>
         (if placed'
          then st_words s' = st_words s @ [word] \<and>
               st_max_length s' = max (length word) (st_max_length s) \<and>
               (\<exists>d\<in>set directions. word_at (st_board s') n word (last (st_positions s)) d)
          else st_words s' = st_words s \<and> st_max_length s' = st_max_length s \<and>
               st_board s' = st_board s)"
proof -
  from step obtain d g' where ch: "choice directions (st_rng s) = Inr (d, g')"
    by (auto simp: attempt_step_def Let_def split: sum.splits prod.splits)
  from choice_member[OF ch] have din: "d \<in> set directions" .
  with nz have dnz: "d \<noteq> (0, 0)" by auto
  let ?pos = "last (st_positions s)"
  show ?thesis
  proof (cases "can_place_word (st_board s) n word ?pos d = Inr True")
    case True
    from place_word_effect[OF wf dnz True]
    obtain b' where pw: "place_word (st_board s) word ?pos d = Inr b'" and wf': "wf_board b' n"
      and wat: "word_at b' n word ?pos d"
      and keep: "letters_kept n (st_board s) b'"
      by (auto simp: letters_kept_iff)
    from step ch True pw have "placed'" and "st_board s' = b'"
      and "st_words s' = st_words s @ [word]"
      and "st_max_length s' = max (length word) (st_max_length s)"
      by (auto simp: attempt_step_def Let_def)
    with wf' wat keep din show ?thesis by auto
  next
    case False
    with can_place_word_accepts[OF wf, of word ?pos d]
    have F: "can_place_word (st_board s) n word ?pos d = Inr False" by simp
    from step ch F have "\<not> placed'" and "st_board s' = st_board s"
      and "st_words s' = st_words s" and "st_max_length s' = st_max_length s"
      by (auto simp: attempt_step_def Let_def)
    with wf show ?thesis by (simp add: letters_kept_refl)
  qed
qed

lemma attempt_step_no_error:
  assumes wf: "wf_board (st_board s) n" and nz: "(0, 0) \<notin> set directions"
    and ne: "directions \<noteq> []"
  shows "\<exists>s' placed'. attempt_step n word directions s = Inr (s', placed')"
proof -
  from choice_nonempty[OF ne] obtain d g' where ch: "choice directions (st_rng s) = Inr (d, g')"
    by blast
  from choice_member[OF ch] nz have dnz: "d \<noteq> (0, 0)" by auto
  let ?pos = "last (st_positions s)"
  show ?thesis
  proof (cases "can_place_word (st_board s) n word ?pos d = Inr True")
    case True
    from place_word_effect[OF wf dnz True]
    obtain b' where pw: "place_word (st_board s) word ?pos d = Inr b'" by blast
    with ch True show ?thesis by (auto simp: attempt_step_def Let_def)
  next
    case False
    with can_place_word_accepts[OF wf, of word ?pos d]
    have F: "can_place_word (st_board s) n word ?pos d = Inr False" by simp
    with ch show ?thesis by (auto simp: attempt_step_def Let_def)
  qed
qed

section \<open>The attempt loop\<close>

lemma butlast_last_set: "xs \<noteq> [] \<Longrightarrow> set (butlast xs) \<union> {last xs} = set xs"
  by (induction xs) auto

lemma attempt_loop_exit:
  "placed \<or> st_positions s = [] \<Longrightarrow> attempt_loop n word directions s placed = Some (Inr s)"
  by (subst attempt_loop.simps) auto

lemma attempt_loop_error:
  "\<not> placed \<Longrightarrow> st_positions s \<noteq> [] \<Longrightarrow> attempt_step n word directions s = Inl e \<Longrightarrow>
   attempt_loop n word directions s placed = Some (Inl e)"
  by (subst attempt_loop.simps) simp

lemma attempt_loop_step:
  "\<not> placed \<Longrightarrow> st_positions s \<noteq> [] \<Longrightarrow> attempt_step n word directions s = Inr (s1, p1) \<Longrightarrow>
   attempt_loop n word directions s placed = attempt_loop n word directions s1 p1"
  by (subst attempt_loop.simps) simp

lemma attempt_step_shrinks:
  assumes "st_positions s \<noteq> []" "attempt_step n word directions s = Inr (s', placed')"
  shows "length (st_positions s') < length (st_positions s)"
  using attempt_step_positions[OF assms(2)] assms(1) by simp

lemma attempt_loop_total: "\<exists>r. attempt_loop n word directions s placed = Some r"
proof (induction "length (st_positions s)" arbitrary: s placed rule: less_induct)
  case less
  show ?case
  proof (cases "placed \<or> st_positions s = []")
    case True
    then show ?thesis by (simp add: attempt_loop_exit)
  next
    case False
    then have np: "\<not> placed" and ne: "st_positions s \<noteq> []" by simp_all
    show ?thesis
    proof (cases "attempt_step n word directions s")
      case (Inl e)
      with np ne show ?thesis by (simp add: attempt_loop_error)
    next
      case (Inr sp)
      obtain s1 p1 where sp: "sp = (s1, p1)" by (cases sp)
      with Inr have step: "attempt_step n word directions s = Inr (s1, p1)" by simp
      from attempt_step_shrinks[OF ne step] less[of s1 p1]
      have "\<exists>r. attempt_loop n word directions s1 p1 = Some r" by simp
      with attempt_loop_step[OF np ne step] show ?thesis by simp
    qed
  qed
qed

lemma attempt_loop_inv:
  assumes "wf_board (st_board s) n" "(0, 0) \<notin> set directions"
    and "attempt_loop n word directions s placed = Some (Inr s')"
  shows "wf_board (st_board s') n \<and> letters_kept n (st_board s) (st_board s') \<and>
         set (st_positions s') \<union> set (st_pop_positions s')
           = set (st_positions s) \<union> set (st_pop_positions s) \<and>
         (\<forall>w\<in>set (st_words s'). w \<in> set (st_words s) \<or>
            (\<exists>pos\<in>set (st_positions s). \<exists>d\<in>set directions. word_at (st_board s') n w pos d))"
  using assms
proof (induction "length (st_positions s)" arbitrary: s placed rule: less_induct)
  case less
  show ?case
  proof (cases "placed \<or> st_positions s = []")
    case True
    with less.prems(3) have "s' = s" by (simp add: attempt_loop_exit)
    with less.prems(1) show ?thesis by (simp add: letters_kept_refl)
  next
    case False
    then have np: "\<not> placed" and ne: "st_positions s \<noteq> []" by simp_all
    show ?thesis
    proof (cases "attempt_step n word directions s")
      case (Inl e)
      with np ne less.prems(3) show ?thesis by (simp add: attempt_loop_error)
    next
      case (Inr sp)
      obtain s1 p1 where sp: "sp = (s1, p1)" by (cases sp)
      with Inr have step: "attempt_step n word directions s = Inr (s1, p1)" by simp
      from attempt_step_positions[OF step]
      have pos1: "st_positions s1 = butlast (st_positions s)"
        and pop1: "st_pop_positions s1 = st_pop_positions s @ [last (st_positions s)]" by simp_all
      from attempt_step_effect[OF less.prems(1,2) step]
      have wf1: "wf_board (st_board s1) n" and keep1: "letters_kept n (st_board s) (st_board s1)"
        and words1: "\<forall>w\<in>set (st_words s1). w \<in> set (st_words s) \<or>
            (\<exists>d\<in>set directions. word_at (st_board s1) n w (last (st_positions s)) d)"
        by (auto split: if_splits)
      have loop1: "attempt_loop n word directions s1 p1 = Some (Inr s')"
        using attempt_loop_step[OF np ne step] less.prems(3) by simp
      from less.hyps[OF attempt_step_shrinks[OF ne step] wf1 less.prems(2) loop1]
      have wf': "wf_board (st_board s') n" and keep': "letters_kept n (st_board s1) (st_board s')"
        and sets': "set (st_positions s') \<union> set (st_pop_positions s')
           = set (st_positions s1) \<union> set (st_pop_positions s1)"
        and words': "\<forall>w\<in>set (st_words s'). w \<in> set (st_words s1) \<or>
            (\<exists>pos\<in>set (st_positions s1). \<exists>d\<in>set directions. word_at (st_board s') n w pos d)"
        by simp_all
      have lastin: "last (st_positions s) \<in> set (st_positions s)" using ne by simp
      have split: "set (st_positions s) = set (butlast (st_positions s)) \<union> {last (st_positions s)}"
        using ne butlast_last_set[of "st_positions s"] by simp
      have sets: "set (st_positions s') \<union> set (st_pop_positions s')
           = set (st_positions s) \<union> set (st_pop_positions s)"
        using sets' pos1 pop1 split by auto
      have words: "\<forall>w\<in>set (st_words s'). w \<in> set (st_words s) \<or>
            (\<exists>pos\<in>set (st_positions s). \<exists>d\<in>set directions. word_at (st_board s') n w pos d)"
      proof
        fix w assume "w \<in> set (st_words s')"
        with words' consider (old) "w \<in> set (st_words s1)"
          | (new) "\<exists>pos\<in>set (st_positions s1). \<exists>d\<in>set directions. word_at (st_board s') n w pos d"
          by blast
        then show "w \<in> set (st_words s) \<or>
            (\<exists>pos\<in>set (st_positions s). \<exists>d\<in>set directions. word_at (st_board s') n w pos d)"
        proof cases
          case old
          with words1 consider "w \<in> set (st_words s)"
            | "\<exists>d\<in>set directions. word_at (st_board s1) n w (last (st_positions s)) d" by blast
          then show ?thesis
          proof cases
            case 1 then show ?thesis by simp
          next
            case 2
            then obtain d where "d \<in> set directions"
              "word_at (st_board s1) n w (last (st_positions s)) d" by blast
            with word_at_kept[OF _ keep'] lastin show ?thesis by blast
          qed
        next
          case new
          then obtain pos d where "pos \<in> set (butlast (st_positions s))" "d \<in> set directions"
            "word_at (st_board s') n w pos d" using pos1 by auto
          moreover then have "pos \<in> set (st_positions s)" by (meson in_set_butlastD)
          ultimately show ?thesis by blast
        qed
      qed
      from wf' letters_kept_trans[OF keep1 keep'] sets words show ?thesis by blast
    qed
  qed
qed

lemma attempt_loop_no_error:
  assumes "wf_board (st_board s) n" "(0, 0) \<notin> set directions" "directions \<noteq> []"
  shows "\<exists>s'. attempt_loop n word directions s placed = Some (Inr s')"
  using assms(1)
proof (induction "length (st_positions s)" arbitrary: s placed rule: less_induct)
  case less
  show ?case
  proof (cases "placed \<or> st_positions s = []")
    case True
    then show ?thesis by (simp add: attempt_loop_exit)
  next
    case False
    then have np: "\<not> placed" and ne: "st_positions s \<noteq> []" by simp_all
    from attempt_step_no_error[OF less.prems assms(2,3)]
    obtain s1 p1 where step: "attempt_step n word directions s = Inr (s1, p1)" by blast
    from attempt_step_effect[OF less.prems assms(2) step]
    have wf1: "wf_board (st_board s1) n" by simp
    from less.hyps[OF attempt_step_shrinks[OF ne step] wf1]
    show ?thesis using attempt_loop_step[OF np ne step] by simp
  qed
qed

section \<open>The loop over the vocabulary\<close>

lemma populate_words_total: "\<exists>r. populate_words n directions vocabulary s = Some r"
proof (induction vocabulary arbitrary: s)
  case Nil
  show ?case by simp
next
  case (Cons word rest)
  obtain ps g' where sh: "shuffle (st_positions s @ st_pop_positions s) (st_rng s) = (ps, g')"
    by (cases "shuffle (st_positions s @ st_pop_positions s) (st_rng s)")
  let ?s1 = "s\<lparr>st_positions := ps, st_pop_positions := [], st_rng := g'\<rparr>"
  from attempt_loop_total[of n word directions ?s1 False]
  obtain r where r: "attempt_loop n word directions ?s1 False = Some r" by blast
  show ?case
  proof (cases r)
    case (Inl e)
    with sh r show ?thesis by simp
  next
    case (Inr s2)
    with sh r Cons.IH[of s2] show ?thesis by simp
  qed
qed

lemma populate_words_inv:
  assumes "wf_board (st_board s) n" "(0, 0) \<notin> set directions"
    and "populate_words n directions vocabulary s = Some (Inr s')"
  shows "wf_board (st_board s') n \<and> letters_kept n (st_board s) (st_board s') \<and>
         set (st_positions s') \<union> set (st_pop_positions s')
           = set (st_positions s) \<union> set (st_pop_positions s) \<and>
         (\<forall>w\<in>set (st_words s'). w \<in> set (st_words s) \<or>
            (\<exists>pos\<in>set (st_positions s) \<union> set (st_pop_positions s).
               \<exists>d\<in>set directions. word_at (st_board s') n w pos d))"
  using assms
proof (induction vocabulary arbitrary: s)
  case Nil
  then show ?case by (auto simp: letters_kept_refl)
next
  case (Cons word rest)
  obtain ps g' where sh: "shuffle (st_positions s @ st_pop_positions s) (st_rng s) = (ps, g')"
    by (cases "shuffle (st_positions s @ st_pop_positions s) (st_rng s)")
  let ?s1 = "s\<lparr>st_positions := ps, st_pop_positions := [], st_rng := g'\<rparr>"
  let ?P = "set (st_positions s) \<union> set (st_pop_positions s)"
  from shuffle_set[OF sh] have ps: "set ps = ?P" by simp
  from Cons.prems(3) sh obtain s2 where
    loop: "attempt_loop n word directions ?s1 False = Some (Inr s2)"
    and rest: "populate_words n directions rest s2 = Some (Inr s')"
    by (auto split: option.splits sum.splits)
  have wf1: "wf_board (st_board ?s1) n" using Cons.prems(1) by simp
  from attempt_loop_inv[OF wf1 Cons.prems(2) loop]
  have wf2: "wf_board (st_board s2) n" and keep2: "letters_kept n (st_board s) (st_board s2)"
    and sets2: "set (st_positions s2) \<union> set (st_pop_positions s2) = ?P"
    and words2: "\<forall>w\<in>set (st_words s2). w \<in> set (st_words s) \<or>
            (\<exists>pos\<in>?P. \<exists>d\<in>set directions. word_at (st_board s2) n w pos d)"
    using ps by simp_all
  from Cons.IH[OF wf2 Cons.prems(2) rest]
  have wf': "wf_board (st_board s') n" and keep': "letters_kept n (st_board s2) (st_board s')"
    and sets': "set (st_positions s') \<union> set (st_pop_positions s') = ?P"
    and words': "\<forall>w\<in>set (st_words s'). w \<in> set (st_words s2) \<or>
            (\<exists>pos\<in>?P. \<exists>d\<in>set directions. word_at (st_board s') n w pos d)"
    using sets2 by simp_all
  have words: "\<forall>w\<in>set (st_words s'). w \<in> set (st_words s) \<or>
            (\<exists>pos\<in>?P. \<exists>d\<in>set directions. word_at (st_board s') n w pos d)"
  proof
    fix w assume "w \<in> set (st_words s')"
    with words' consider (old) "w \<in> set (st_words s2)"
      | (new) "\<exists>pos\<in>?P. \<exists>d\<in>set directions. word_at (st_board s') n w pos d" by blast
    then show "w \<in> set (st_words s) \<or>
            (\<exists>pos\<in>?P. \<exists>d\<in>set directions. word_at (st_board s') n w pos d)"
    proof cases
      case old
      with words2 consider "w \<in> set (st_words s)"
        | "\<exists>pos\<in>?P. \<exists>d\<in>set directions. word_at (st_board s2) n w pos d" by blast
      then show ?thesis
      proof cases
        case 1 then show ?thesis by simp
      next
        case 2
        then obtain pos d where "pos \<in> ?P" "d \<in> set directions"
          "word_at (st_board s2) n w pos d" by blast
        with word_at_kept[OF _ keep'] show ?thesis by blast
      qed
    next
      case new then show ?thesis by simp
    qed
  qed
  from wf' letters_kept_trans[OF keep2 keep'] sets' words show ?case by blast
qed

lemma populate_words_no_error:
  assumes "wf_board (st_board s) n" "(0, 0) \<notin> set directions" "directions \<noteq> []"
  shows "\<exists>s'. populate_words n directions vocabulary s = Some (Inr s')"
  using assms(1)
proof (induction vocabulary arbitrary: s)
  case Nil
  show ?case by simp
next
  case (Cons word rest)
  obtain ps g' where sh: "shuffle (st_positions s @ st_pop_positions s) (st_rng s) = (ps, g')"
    by (cases "shuffle (st_positions s @ st_pop_positions s) (st_rng s)")
  let ?s1 = "s\<lparr>st_positions := ps, st_pop_positions := [], st_rng := g'\<rparr>"
  have wf1: "wf_board (st_board ?s1) n" using Cons.prems by simp
  from attempt_loop_no_error[OF wf1 assms(2,3)]
  obtain s2 where loop: "attempt_loop n word directions ?s1 False = Some (Inr s2)" by blast
  from attempt_loop_inv[OF wf1 assms(2) loop] have wf2: "wf_board (st_board s2) n" by simp
  from Cons.IH[OF wf2] sh loop show ?case by simp
qed

lemma populate_words_empty_pool:
  assumes "st_positions s = []" "st_pop_positions s = []"
  shows "populate_words n directions vocabulary s = Some (Inr s)"
proof (induction vocabulary)
  case Nil
  show ?case by simp
next
  case (Cons word rest)
  have sh: "shuffle (st_positions s @ st_pop_positions s) (st_rng s) = ([], st_rng s)"
    using assms by (simp add: shuffle_def)
  have same: "s\<lparr>st_positions := [], st_pop_positions := [], st_rng := st_rng s\<rparr> = s"
    using assms by simp
  have "attempt_loop n word directions s False = Some (Inr s)"
    using assms(1) by (simp add: attempt_loop_exit)
  with sh same Cons.IH show ?case by simp
qed

lemma candidate_positions_set:
  "set (candidate_positions n) = {(r, c). 0 \<le> r \<and> r \<le> n - 2 \<and> 0 \<le> c \<and> c \<le> n - 2}"
  by (auto simp: candidate_positions_def py_range_def)

lemma candidate_positions_distinct: "distinct (candidate_positions n)"
  by (simp add: candidate_positions_def py_range_def distinct_product)

lemma candidate_positions_length: "length (candidate_positions n) = nat (n - 1) * nat (n - 1)"
  by (simp add: candidate_positions_def py_range_def)

lemma candidate_positions_empty: "n \<le> 1 \<Longrightarrow> candidate_positions n = []"
  by (simp add: candidate_positions_def py_range_def)

lemma wf_init_board: "0 \<le> n \<Longrightarrow> wf_board (init_board n) n"
  by (simp add: wf_board_def init_board_def list_all_iff)

lemma populate_board_result:
  assumes "populate_board board n vocabulary directions g = Some (Inr (board', words, max_length, g'))"
  shows "\<exists>s'. populate_words n directions vocabulary (initial_state board n g) = Some (Inr s') \<and>
           board' = st_board s' \<and> words = st_words s' \<and> max_length = st_max_length s' \<and>
           g' = st_rng s'"
  using assms by (auto simp: populate_board_def split: option.splits sum.splits)

lemma fill_empty_cells_no_rows: "n \<le> 0 \<Longrightarrow> fill_empty_cells board n g = Inr (board, g)"
  by (simp add: fill_empty_cells_def py_range_def)

section \<open>The filler\<close>

lemma filled_from_iff:
  "filled_from n board board' \<longleftrightarrow>
     (\<forall>r c. in_grid n r c \<longrightarrow>
        (case cell_at board r c of
           Some ch \<Rightarrow> cell_at board' r c = Some ch
         | None \<Rightarrow> (case cell_at board' r c of None \<Rightarrow> True | Some ch \<Rightarrow> uppercase_letter ch)))"
  by (auto simp: filled_from_def list_all_iff set_py_range in_grid_def)

lemma letters_uppercase_iff:
  "letters_uppercase n board \<longleftrightarrow>
     (\<forall>r c ch. in_grid n r c \<longrightarrow> cell_at board r c = Some ch \<longrightarrow> uppercase_letter ch)"
  by (auto simp: letters_uppercase_def list_all_iff set_py_range in_grid_def split: option.splits)

lemma filled_from_refl: "filled_from n board board"
  by (auto simp: filled_from_iff split: option.splits)

lemma filled_from_trans:
  assumes "filled_from n b1 b2" "filled_from n b2 b3"
  shows "filled_from n b1 b3"
  unfolding filled_from_iff
proof (intro allI impI)
  fix r c assume g: "in_grid n r c"
  from assms(1) g have a: "case cell_at b1 r c of
           Some ch \<Rightarrow> cell_at b2 r c = Some ch
         | None \<Rightarrow> (case cell_at b2 r c of None \<Rightarrow> True | Some ch \<Rightarrow> uppercase_letter ch)"
    by (simp add: filled_from_iff)
  from assms(2) g have b: "case cell_at b2 r c of
           Some ch \<Rightarrow> cell_at b3 r c = Some ch
         | None \<Rightarrow> (case cell_at b3 r c of None \<Rightarrow> True | Some ch \<Rightarrow> uppercase_letter ch)"
    by (simp add: filled_from_iff)
  from a b show "case cell_at b1 r c of
           Some ch \<Rightarrow> cell_at b3 r c = Some ch
         | None \<Rightarrow> (case cell_at b3 r c of None \<Rightarrow> True | Some ch \<Rightarrow> uppercase_letter ch)"
    by (auto split: option.splits)
qed

lemma filled_from_kept: "filled_from n board board' \<Longrightarrow> letters_kept n board board'"
  by (fastforce simp: filled_from_iff letters_kept_iff)

lemma filled_from_not_None:
  "filled_from n board board' \<Longrightarrow> in_grid n r c \<Longrightarrow> cell_at board r c \<noteq> None \<Longrightarrow>
   cell_at board' r c \<noteq> None"
  by (fastforce simp: filled_from_iff)

lemma randint_bounds:
  assumes "a \<le> b"
  shows "a \<le> fst (randint a b g) \<and> fst (randint a b g) \<le> b"
proof -
  have "fst (randbelow (b - a + 1) g) < b - a + 1" by (rule randbelow_less) simp
  with assms show ?thesis by (auto simp: randint_def split: prod.splits)
qed

lemma uppercase_char_of:
  assumes "65 \<le> k" "k \<le> (90::nat)"
  shows "uppercase_letter (char_of k)"
proof -
  from assms have "k mod 256 = k" by simp
  with assms show ?thesis by (simp add: uppercase_letter_def)
qed

lemma random_letter_uppercase:
  "uppercase_letter (char_of (fst (randint (of_char CHR ''A'') (of_char CHR ''Z'') g)))"
proof -
  have "(of_char CHR ''A'' :: nat) \<le> of_char CHR ''Z''" by simp
  from randint_bounds[OF this, of g] show ?thesis
    by (intro uppercase_char_of) simp_all
qed

lemma fill_cols_effect:
  assumes "wf_board board n" "0 \<le> row" "row < n" "\<forall>c\<in>set cols. 0 \<le> c \<and> c < n"
  shows "\<exists>board' g'. fill_cols board row cols g = Inr (board', g') \<and> wf_board board' n \<and>
           filled_from n board board' \<and> (\<forall>c\<in>set cols. cell_at board' row c \<noteq> None)"
  using assms
proof (induction cols arbitrary: board g)
  case Nil
  then show ?case by (simp add: filled_from_refl)
next
  case (Cons col cols)
  from Cons.prems have g: "in_grid n row col" by (simp add: in_grid_def)
  from Cons.prems(4) have rest: "\<forall>c\<in>set cols. 0 \<le> c \<and> c < n" by simp
  have get: "board_get board row col = Inr (cell_at board row col)"
    by (rule board_get_in_grid[OF Cons.prems(1) g])
  show ?case
  proof (cases "cell_at board row col")
    case None
    obtain k g1 where ri: "randint (of_char CHR ''A'') (of_char CHR ''Z'') g = (k, g1)"
      by (cases "randint (of_char CHR ''A'') (of_char CHR ''Z'') g")
    from random_letter_uppercase[of g] ri have up: "uppercase_letter (char_of k)" by simp
    from board_set_in_grid[OF Cons.prems(1) g, of "char_of k"]
    obtain b1 where b1: "board_set board row col (char_of k) = Inr b1" "wf_board b1 n"
      and cells: "\<And>r' c'. in_grid n r' c' \<Longrightarrow>
              cell_at b1 r' c' = (if r' = row \<and> c' = col then Some (char_of k) else cell_at board r' c')"
      by blast
    have f1: "filled_from n board b1"
      using cells None up by (auto simp: filled_from_iff split: option.splits)
    from Cons.IH[OF b1(2) Cons.prems(2,3) rest, of g1]
    obtain b' g' where run: "fill_cols b1 row cols g1 = Inr (b', g')" and wf': "wf_board b' n"
      and f2: "filled_from n b1 b'" and nn: "\<forall>c\<in>set cols. cell_at b' row c \<noteq> None"
      by blast
    have "cell_at b1 row col \<noteq> None" using cells[OF g] by simp
    from filled_from_not_None[OF f2 g this] have here: "cell_at b' row col \<noteq> None" .
    have "fill_cols board row (col # cols) g = Inr (b', g')"
      using get None ri b1(1) run by simp
    with wf' filled_from_trans[OF f1 f2] nn here show ?thesis by simp
  next
    case (Some ch)
    from Cons.IH[OF Cons.prems(1,2,3) rest, of g]
    obtain b' g' where run: "fill_cols board row cols g = Inr (b', g')" and wf': "wf_board b' n"
      and f2: "filled_from n board b'" and nn: "\<forall>c\<in>set cols. cell_at b' row c \<noteq> None"
      by blast
    have "cell_at board row col \<noteq> None" using Some by simp
    from filled_from_not_None[OF f2 g this] have here: "cell_at b' row col \<noteq> None" .
    have "fill_cols board row (col # cols) g = Inr (b', g')"
      using get Some run by simp
    with wf' f2 nn here show ?thesis by simp
  qed
qed

lemma fill_rows_effect:
  assumes "wf_board board n" "\<forall>r\<in>set rows. 0 \<le> r \<and> r < n"
  shows "\<exists>board' g'. fill_rows board n rows g = Inr (board', g') \<and> wf_board board' n \<and>
           filled_from n board board' \<and>
           (\<forall>r\<in>set rows. \<forall>c. 0 \<le> c \<and> c < n \<longrightarrow> cell_at board' r c \<noteq> None)"
  using assms
proof (induction rows arbitrary: board g)
  case Nil
  then show ?case by (simp add: filled_from_refl)
next
  case (Cons row rows)
  from Cons.prems(2) have row: "0 \<le> row" "row < n" and rest: "\<forall>r\<in>set rows. 0 \<le> r \<and> r < n"
    by simp_all
  have cols: "\<forall>c\<in>set (py_range 0 n). 0 \<le> c \<and> c < n" by (simp add: set_py_range)
  from fill_cols_effect[OF Cons.prems(1) row cols, of g]
  obtain b1 g1 where run1: "fill_cols board row (py_range 0 n) g = Inr (b1, g1)"
    and wf1: "wf_board b1 n" and f1: "filled_from n board b1"
    and nn1: "\<forall>c\<in>set (py_range 0 n). cell_at b1 row c \<noteq> None" by blast
  from Cons.IH[OF wf1 rest, of g1]
  obtain b' g' where run: "fill_rows b1 n rows g1 = Inr (b', g')" and wf': "wf_board b' n"
    and f2: "filled_from n b1 b'"
    and nn: "\<forall>r\<in>set rows. \<forall>c. 0 \<le> c \<and> c < n \<longrightarrow> cell_at b' r c \<noteq> None" by blast
  have here: "\<forall>c. 0 \<le> c \<and> c < n \<longrightarrow> cell_at b' row c \<noteq> None"
  proof (intro allI impI)
    fix c assume c: "0 \<le> c \<and> c < n"
    with row have g: "in_grid n row c" by (simp add: in_grid_def)
    from nn1 c have "cell_at b1 row c \<noteq> None" by (simp add: set_py_range)
    from filled_from_not_None[OF f2 g this] show "cell_at b' row c \<noteq> None" .
  qed
  have "fill_rows board n (row # rows) g = Inr (b', g')" using run1 run by simp
  with wf' filled_from_trans[OF f1 f2] nn here show ?case by simp
qed

lemma fill_empty_cells_effect:
  assumes "wf_board board n"
  shows "\<exists>board' g'. fill_empty_cells board n g = Inr (board', g') \<and> wf_board board' n \<and>
           filled_from n board board' \<and>
           (\<forall>r c. in_grid n r c \<longrightarrow> cell_at board' r c \<noteq> None)"
proof -
  have rows: "\<forall>r\<in>set (py_range 0 n). 0 \<le> r \<and> r < n" by (simp add: set_py_range)
  from fill_rows_effect[OF assms rows, of g]
  show ?thesis by (auto simp: fill_empty_cells_def set_py_range in_grid_def)
qed

lemma filled_from_cell:
  "filled_from n board board' \<Longrightarrow> in_grid n r c \<Longrightarrow>
   (case cell_at board r c of
      Some ch \<Rightarrow> cell_at board' r c = Some ch
    | None \<Rightarrow> (case cell_at board' r c of None \<Rightarrow> True | Some ch \<Rightarrow> uppercase_letter ch))"
  by (simp add: filled_from_iff)

section \<open>The vocabulary\<close>

lemma upper_Crown: "upper ''Crown'' = ''CROWN''"
  by code_simp

lemma upper_CROWN: "upper ''CROWN'' = ''CROWN''"
  by code_simp

lemma CROWN_in_literal: "''CROWN'' \<in> set vocabulary_literal"
  by (simp add: vocabulary_literal_def vocabulary_26_35_def)

lemma Crown_in_literal: "''Crown'' \<in> set vocabulary_literal"
  by (simp add: vocabulary_literal_def vocabulary_66_75_def)

lemma map_collision_not_distinct:
  assumes "x \<in> set xs" "y \<in> set xs" "x \<noteq> y" "f x = f y"
  shows "\<not> distinct (map f xs)"
  using assms by (auto simp: distinct_map inj_on_def)

lemma get_vocabulary_mset:
  "mset (fst (get_vocabulary list_of_set g)) = mset (map upper (list_of_set vocabulary_literal))"
  by (simp add: get_vocabulary_def shuffle_mset)

section \<open>Uppercase letters from the vocabulary to the filled board\<close>

lemma place_word_uppercase:
  assumes wf: "wf_board board n" and nz: "direction \<noteq> (0, 0)"
    and can: "can_place_word board n word position direction = Inr True"
    and pw: "place_word board word position direction = Inr board'"
    and up: "letters_uppercase n board" and wup: "\<forall>ch\<in>set word. uppercase_letter ch"
  shows "letters_uppercase n board'"
proof -
  from can can_place_word_accepts[OF wf, of word position direction]
  have acc: "\<And>k. k < length word \<Longrightarrow> cell_accepts board n word position direction k"
    by simp
  then have inb: "\<forall>k<length word. in_grid n (path_row position direction (0 + int k))
                                   (path_col position direction (0 + int k))"
    by (simp add: cell_accepts_def)
  from place_from_path[OF wf nz inb] pw
  have on: "\<And>k. k < length word \<Longrightarrow> cell_at board' (path_row position direction (int k))
                                          (path_col position direction (int k)) = Some (word ! k)"
    and off: "\<And>r c. in_grid n r c \<Longrightarrow>
              (\<forall>k<length word. (r, c) \<noteq> (path_row position direction (int k),
                                           path_col position direction (int k))) \<Longrightarrow>
              cell_at board' r c = cell_at board r c"
    by (auto simp: place_word_def)
  show ?thesis
    unfolding letters_uppercase_iff
  proof (intro allI impI)
    fix r c ch assume g: "in_grid n r c" and new: "cell_at board' r c = Some ch"
    show "uppercase_letter ch"
    proof (cases "\<exists>k<length word. (r, c) = (path_row position direction (int k),
                                           path_col position direction (int k))")
      case True
      then obtain k where k: "k < length word" and rc: "r = path_row position direction (int k)"
        "c = path_col position direction (int k)" by auto
      from on[OF k] new rc have "ch = word ! k" by simp
      with k wup show ?thesis by simp
    next
      case False
      then have "\<forall>k<length word. (r, c) \<noteq> (path_row position direction (int k),
                                           path_col position direction (int k))" by blast
      from off[OF g this] new have "cell_at board r c = Some ch" by simp
      with up g show ?thesis by (auto simp: letters_uppercase_iff)
    qed
  qed
qed

lemma attempt_step_uppercase:
  assumes wf: "wf_board (st_board s) n" and nz: "(0, 0) \<notin> set directions"
    and up: "letters_uppercase n (st_board s)" and wup: "\<forall>ch\<in>set word. uppercase_letter ch"
    and step: "attempt_step n word directions s = Inr (s', placed')"
  shows "letters_uppercase n (st_board s')"
proof -
  from step obtain d g' where ch: "choice directions (st_rng s) = Inr (d, g')"
    by (auto simp: attempt_step_def Let_def split: sum.splits prod.splits)
  from choice_member[OF ch] nz have dnz: "d \<noteq> (0, 0)" by auto
  let ?pos = "last (st_positions s)"
  show ?thesis
  proof (cases "can_place_word (st_board s) n word ?pos d = Inr True")
    case True
    from place_word_effect[OF wf dnz True]
    obtain b' where pw: "place_word (st_board s) word ?pos d = Inr b'" by blast
    from step ch True pw have "st_board s' = b'" by (auto simp: attempt_step_def Let_def)
    with place_word_uppercase[OF wf dnz True pw up wup] show ?thesis by simp
  next
    case False
    with can_place_word_accepts[OF wf, of word ?pos d]
    have F: "can_place_word (st_board s) n word ?pos d = Inr False" by simp
    from step ch F have "st_board s' = st_board s" by (auto simp: attempt_step_def Let_def)
    with up show ?thesis by simp
  qed
qed

lemma attempt_loop_uppercase:
  assumes "wf_board (st_board s) n" "(0, 0) \<notin> set directions"
    and "letters_uppercase n (st_board s)" "\<forall>ch\<in>set word. uppercase_letter ch"
    and "attempt_loop n word directions s placed = Some (Inr s')"
  shows "letters_uppercase n (st_board s')"
  using assms(1,3,5)
proof (induction "length (st_positions s)" arbitrary: s placed rule: less_induct)
  case less
  show ?case
  proof (cases "placed \<or> st_positions s = []")
    case True
    with less.prems(3) have "s' = s" by (simp add: attempt_loop_exit)
    with less.prems(2) show ?thesis by simp
  next
    case False
    then have np: "\<not> placed" and ne: "st_positions s \<noteq> []" by simp_all
    show ?thesis
    proof (cases "attempt_step n word directions s")
      case (Inl e)
      with np ne less.prems(3) show ?thesis by (simp add: attempt_loop_error)
    next
      case (Inr sp)
      obtain s1 p1 where sp: "sp = (s1, p1)" by (cases sp)
      with Inr have step: "attempt_step n word directions s = Inr (s1, p1)" by simp
      from attempt_step_effect[OF less.prems(1) assms(2) step]
      have wf1: "wf_board (st_board s1) n" by simp
      have up1: "letters_uppercase n (st_board s1)"
        by (rule attempt_step_uppercase[OF less.prems(1) assms(2) less.prems(2) assms(4) step])
      have loop1: "attempt_loop n word directions s1 p1 = Some (Inr s')"
        using attempt_loop_step[OF np ne step] less.prems(3) by simp
      from less.hyps[OF attempt_step_shrinks[OF ne step] wf1 up1 loop1] show ?thesis .
    qed
  qed
qed

lemma populate_words_uppercase:
  assumes "wf_board (st_board s) n" "(0, 0) \<notin> set directions"
    and "letters_uppercase n (st_board s)"
    and "\<forall>w\<in>set vocabulary. \<forall>ch\<in>set w. uppercase_letter ch"
    and "populate_words n directions vocabulary s = Some (Inr s')"
  shows "letters_uppercase n (st_board s')"
  using assms(1,3,4,5)
proof (induction vocabulary arbitrary: s)
  case Nil
  then show ?case by simp
next
  case (Cons word rest)
  obtain ps g' where sh: "shuffle (st_positions s @ st_pop_positions s) (st_rng s) = (ps, g')"
    by (cases "shuffle (st_positions s @ st_pop_positions s) (st_rng s)")
  let ?s1 = "s\<lparr>st_positions := ps, st_pop_positions := [], st_rng := g'\<rparr>"
  from Cons.prems(4) sh obtain s2 where
    loop: "attempt_loop n word directions ?s1 False = Some (Inr s2)"
    and rest: "populate_words n directions rest s2 = Some (Inr s')"
    by (auto split: option.splits sum.splits)
  have wf1: "wf_board (st_board ?s1) n" using Cons.prems(1) by simp
  have up1: "letters_uppercase n (st_board ?s1)" using Cons.prems(2) by simp
  from Cons.prems(3) have wup: "\<forall>ch\<in>set word. uppercase_letter ch"
    and rup: "\<forall>w\<in>set rest. \<forall>ch\<in>set w. uppercase_letter ch" by simp_all
  from attempt_loop_inv[OF wf1 assms(2) loop] have wf2: "wf_board (st_board s2) n" by simp
  have up2: "letters_uppercase n (st_board s2)"
    by (rule attempt_loop_uppercase[OF wf1 assms(2) up1 wup loop])
  from Cons.IH[OF wf2 up2 rup rest] show ?case .
qed

lemma init_board_uppercase: "0 \<le> n \<Longrightarrow> letters_uppercase n (init_board n)"
  by (auto simp: letters_uppercase_iff in_grid_def cell_at_def init_board_def)

lemma fill_empty_cells_uppercase_board:
  assumes "wf_board board n" "letters_uppercase n board"
  shows "\<exists>board' g'. fill_empty_cells board n g = Inr (board', g') \<and>
           (\<forall>r c. in_grid n r c \<longrightarrow> (\<exists>ch. cell_at board' r c = Some ch \<and> uppercase_letter ch))"
proof -
  from fill_empty_cells_effect[OF assms(1), of g]
  obtain b' g' where run: "fill_empty_cells board n g = Inr (b', g')"
    and ff: "filled_from n board b'"
    and nn: "\<And>r c. in_grid n r c \<Longrightarrow> cell_at b' r c \<noteq> None" by blast
  have "\<forall>r c. in_grid n r c \<longrightarrow> (\<exists>ch. cell_at b' r c = Some ch \<and> uppercase_letter ch)"
  proof (intro allI impI)
    fix r c assume g: "in_grid n r c"
    from nn[OF g] obtain ch where ch: "cell_at b' r c = Some ch" by blast
    have "uppercase_letter ch"
    proof (cases "cell_at board r c")
      case None
      with filled_from_cell[OF ff g] ch show ?thesis by simp
    next
      case (Some old)
      with filled_from_cell[OF ff g] ch have "old = ch" by simp
      with Some assms(2) g show ?thesis by (auto simp: letters_uppercase_iff)
    qed
    with ch show "\<exists>ch. cell_at b' r c = Some ch \<and> uppercase_letter ch" by blast
  qed
  with run show ?thesis by blast
qed

lemma generate_all_uppercase:
  assumes "0 \<le> n" "(0, 0) \<notin> set directions" "directions \<noteq> []"
    and "\<forall>w\<in>set vocabulary. \<forall>ch\<in>set w. uppercase_letter ch"
  shows "\<exists>filled words max_length g'.
           generate n vocabulary directions g = Some (Inr (filled, words, max_length, g')) \<and>
           (\<forall>r c. in_grid n r c \<longrightarrow> (\<exists>ch. cell_at filled r c = Some ch \<and> uppercase_letter ch))"
proof -
  let ?s = "initial_state (init_board n) n g"
  have wf0: "wf_board (st_board ?s) n" using assms(1) by (simp add: initial_state_def wf_init_board)
  have up0: "letters_uppercase n (st_board ?s)"
    using assms(1) by (simp add: initial_state_def init_board_uppercase)
  from populate_words_no_error[OF wf0 assms(2,3), of vocabulary]
  obtain s' where run: "populate_words n directions vocabulary ?s = Some (Inr s')" by blast
  from populate_words_inv[OF wf0 assms(2) run] have wf': "wf_board (st_board s') n" by simp
  have up': "letters_uppercase n (st_board s')"
    by (rule populate_words_uppercase[OF wf0 assms(2) up0 assms(4) run])
  have pb: "populate_board (init_board n) n vocabulary directions g
              = Some (Inr (st_board s', st_words s', st_max_length s', st_rng s'))"
    using run by (simp add: populate_board_def)
  from fill_empty_cells_uppercase_board[OF wf' up', of "st_rng s'"]
  obtain filled g' where fill: "fill_empty_cells (st_board s') n (st_rng s') = Inr (filled, g')"
    and all: "\<forall>r c. in_grid n r c \<longrightarrow> (\<exists>ch. cell_at filled r c = Some ch \<and> uppercase_letter ch)"
    by blast
  from pb fill have "generate n vocabulary directions g
      = Some (Inr (filled, st_words s', st_max_length s', g'))"
    by (simp add: generate_def)
  with all show ?thesis by blast
qed

lemma letters_16_25: "list_all (list_all ascii_letter) vocabulary_16_25"
  by (simp add: vocabulary_16_25_def ascii_letter_def)

lemma letters_26_35: "list_all (list_all ascii_letter) vocabulary_26_35"
  by (simp add: vocabulary_26_35_def ascii_letter_def)

lemma letters_36_45: "list_all (list_all ascii_letter) vocabulary_36_45"
  by (simp add: vocabulary_36_45_def ascii_letter_def)

lemma letters_46_55: "list_all (list_all ascii_letter) vocabulary_46_55"
  by (simp add: vocabulary_46_55_def ascii_letter_def)

lemma letters_56_65: "list_all (list_all ascii_letter) vocabulary_56_65"
  by (simp add: vocabulary_56_65_def ascii_letter_def)

lemma letters_66_75: "list_all (list_all ascii_letter) vocabulary_66_75"
  by (simp add: vocabulary_66_75_def ascii_letter_def)

lemma letters_76_85: "list_all (list_all ascii_letter) vocabulary_76_85"
  by (simp add: vocabulary_76_85_def ascii_letter_def)

lemma letters_86_95: "list_all (list_all ascii_letter) vocabulary_86_95"
  by (simp add: vocabulary_86_95_def ascii_letter_def)

lemma letters_96_105: "list_all (list_all ascii_letter) vocabulary_96_105"
  by (simp add: vocabulary_96_105_def ascii_letter_def)

lemma letters_106_115: "list_all (list_all ascii_letter) vocabulary_106_115"
  by (simp add: vocabulary_106_115_def ascii_letter_def)

lemma letters_116_125: "list_all (list_all ascii_letter) vocabulary_116_125"
  by (simp add: vocabulary_116_125_def ascii_letter_def)

lemma letters_126_131: "list_all (list_all ascii_letter) vocabulary_126_131"
  by (simp add: vocabulary_126_131_def ascii_letter_def)

lemma vocabulary_literal_letters: "list_all (list_all ascii_letter) vocabulary_literal"
  by (simp add: vocabulary_literal_def letters_16_25 letters_26_35 letters_36_45 letters_46_55 letters_56_65 letters_66_75 letters_76_85 letters_86_95 letters_96_105 letters_106_115 letters_116_125 letters_126_131)

lemma char_upper_uppercase:
  assumes "ascii_letter ch"
  shows "uppercase_letter (char_upper ch)"
proof (cases "97 \<le> (of_char ch :: nat) \<and> (of_char ch :: nat) \<le> 122")
  case True
  then have lo: "65 \<le> (of_char ch :: nat) - 32" and hi: "(of_char ch :: nat) - 32 \<le> 90"
    by arith+
  from hi have "(of_char ch :: nat) - 32 < 256" by arith
  then have m: "((of_char ch :: nat) - 32) mod 256 = of_char ch - 32" by (rule mod_less)
  have cu: "char_upper ch = char_of ((of_char ch :: nat) - 32)"
    using True by (simp add: char_upper_def Let_def)
  have "(of_char (char_upper ch) :: nat) = of_char ch - 32" by (simp add: cu m)
  with lo hi show ?thesis by (simp add: uppercase_letter_def)
next
  case False
  with assms show ?thesis by (auto simp: char_upper_def uppercase_letter_def ascii_letter_def Let_def)
qed

lemma upper_uppercase:
  "list_all ascii_letter word \<Longrightarrow> \<forall>ch\<in>set (upper word). uppercase_letter ch"
  by (auto simp: upper_def list_all_iff char_upper_uppercase)

lemma get_vocabulary_set:
  "set (fst (get_vocabulary list_of_set g)) = upper ` set (list_of_set vocabulary_literal)"
  using get_vocabulary_mset[of list_of_set g] by (metis set_map set_mset_mset)

lemma get_vocabulary_uppercase:
  assumes "set (list_of_set vocabulary_literal) = set vocabulary_literal"
  shows "\<forall>w\<in>set (fst (get_vocabulary list_of_set g)). \<forall>ch\<in>set w. uppercase_letter ch"
proof
  fix w assume "w \<in> set (fst (get_vocabulary list_of_set g))"
  with assms obtain v where v: "v \<in> set vocabulary_literal" and w: "w = upper v"
    by (auto simp: get_vocabulary_set)
  from vocabulary_literal_letters v have "list_all ascii_letter v" by (simp add: list_all_iff)
  with w show "\<forall>ch\<in>set w. uppercase_letter ch" by (simp add: upper_uppercase)
qed

lemma main_all_uppercase:
  assumes "set (list_of_set vocabulary_literal) = set vocabulary_literal"
  shows "\<exists>filled words max_length g'.
           main list_of_set g = Some (Inr (filled, words, max_length, g')) \<and>
           (\<forall>r c. in_grid 20 r c \<longrightarrow> (\<exists>ch. cell_at filled r c = Some ch \<and> uppercase_letter ch))"
proof -
  obtain vocabulary g1 where gv: "get_vocabulary list_of_set g = (vocabulary, g1)"
    by (cases "get_vocabulary list_of_set g")
  from assms get_vocabulary_uppercase[of list_of_set g] gv
  have up: "\<forall>w\<in>set vocabulary. \<forall>ch\<in>set w. uppercase_letter ch" by simp
  have nz: "(0, 0) \<notin> set create_all_directions" by (simp add: create_all_directions_def)
  have ne: "create_all_directions \<noteq> []" by (simp add: create_all_directions_def)
  have "(0::int) \<le> 20" by simp
  from generate_all_uppercase[OF this nz ne up, of g1] gv show ?thesis by (simp add: main_def)
qed

section \<open>The claims\<close>

text \<open>
  C1. The claim is that the direction set holds the eight non-zero vectors. The filter
  of \<^verbatim>\<open>create_all_directions\<close> keeps a pair only when both components are
  non-zero, so the list is the four diagonals: no horizontal or vertical direction is in it.
\<close>

theorem create_all_directions_diagonals_only:
  "create_all_directions = [(-1, -1), (-1, 1), (1, -1), (1, 1)] \<and>
   (0, 1) \<notin> set create_all_directions \<and> (1, 0) \<notin> set create_all_directions \<and>
   length create_all_directions = 4"
  by (simp add: create_all_directions_def)

text \<open>
  C2. The claim is that no word occurs twice in the sequence that \<^verbatim>\<open>get_vocabulary\<close>
  returns. The source removes duplicates before it changes the case, so \<open>CROWN\<close> and
  \<open>Crown\<close>, both in the literal, survive as two entries and both become \<open>CROWN\<close>:
  for every enumeration of the set and every random source the result has a duplicate.
\<close>

theorem get_vocabulary_keeps_case_duplicates:
  assumes "set (list_of_set vocabulary_literal) = set vocabulary_literal"
  shows "\<not> distinct (fst (get_vocabulary list_of_set g))"
proof -
  have "\<not> distinct (map upper (list_of_set vocabulary_literal))"
  proof (rule map_collision_not_distinct)
    show "''CROWN'' \<in> set (list_of_set vocabulary_literal)" using assms CROWN_in_literal by simp
    show "''Crown'' \<in> set (list_of_set vocabulary_literal)" using assms Crown_in_literal by simp
    show "''CROWN'' \<noteq> ''Crown''" by simp
    show "upper ''CROWN'' = upper ''Crown''" by (simp add: upper_Crown upper_CROWN)
  qed
  then show ?thesis
    using get_vocabulary_mset[of list_of_set g] by (metis distinct_count_atmost_1 set_mset_mset)
qed

theorem get_vocabulary_keeps_case_duplicates_witness:
  "\<not> distinct (fst (get_vocabulary remdups []))"
proof -
  have h: "set (remdups vocabulary_literal) = set vocabulary_literal" by simp
  show ?thesis using h get_vocabulary_keeps_case_duplicates[of remdups "[]"] by simp
qed

text \<open>
  C3. On a board of \<open>n\<close> rows of \<open>n\<close> cells, \<^verbatim>\<open>can_place_word\<close> returns, and it
  returns true exactly when every index \<open>k\<close> below the length of the word has its cell
  \<open>position + k * direction\<close> inside \<open>[0, n)\<close> in both coordinates and that cell is
  empty or holds the \<open>k\<close>-th character.
\<close>

theorem can_place_word_iff:
  assumes "wf_board board n"
  shows "can_place_word board n word position direction =
           Inr (\<forall>k<length word. cell_accepts board n word position direction k)"
  by (rule can_place_word_accepts[OF assms])

theorem can_place_word_iff_witness:
  "can_place_word (init_board 2) 2 ''AB'' (0, 0) (1, 1) = Inr True \<and>
   can_place_word (init_board 2) 2 ''ABC'' (0, 0) (1, 1) = Inr False"
proof -
  have h: "wf_board (init_board 2) 2" by code_simp
  have a: "(\<forall>k<length ''AB''. cell_accepts (init_board 2) 2 ''AB'' (0, 0) (1, 1) k) = True"
    by (simp add: All_less_Suc cell_accepts_def in_grid_def path_row_def path_col_def
        cell_at_def init_board_def numeral_2_eq_2)
  have b: "(\<forall>k<length ''ABC''. cell_accepts (init_board 2) 2 ''ABC'' (0, 0) (1, 1) k) = False"
    by (simp add: All_less_Suc cell_accepts_def in_grid_def path_row_def path_col_def)
  show ?thesis
    using can_place_word_iff[OF h, of "''AB''" "(0, 0)" "(1, 1)"]
      can_place_word_iff[OF h, of "''ABC''" "(0, 0)" "(1, 1)"]
    by (simp only: a b simp_thms)
qed

text \<open>
  C4. When \<^verbatim>\<open>populate_board\<close> returns on a well-formed board with a direction list that
  does not hold the zero vector, every word of the returned list is written on the
  returned board: there are a candidate starting position and a direction of the list
  such that every cell \<open>position + k * direction\<close> is inside \<open>[0, n)\<close> and holds the
  \<open>k\<close>-th character of the word.
\<close>

theorem populate_board_words_on_grid:
  assumes "wf_board board n" and "(0, 0) \<notin> set directions"
    and "populate_board board n vocabulary directions g = Some (Inr (board', words, max_length, g'))"
    and "w \<in> set words"
  shows "\<exists>position direction. position \<in> set (candidate_positions n) \<and>
           direction \<in> set directions \<and> word_at board' n w position direction"
proof -
  from populate_board_result[OF assms(3)] obtain s' where
    run: "populate_words n directions vocabulary (initial_state board n g) = Some (Inr s')"
    and b: "board' = st_board s'" and ws: "words = st_words s'" by blast
  have wf0: "wf_board (st_board (initial_state board n g)) n"
    using assms(1) by (simp add: initial_state_def)
  from populate_words_inv[OF wf0 assms(2) run] assms(4) ws b
  have "\<exists>pos\<in>set (candidate_positions n). \<exists>d\<in>set directions. word_at board' n w pos d"
    by (simp add: initial_state_def)
  then show ?thesis by blast
qed

theorem populate_board_words_on_grid_witness:
  "\<exists>position direction. position \<in> set (candidate_positions 3) \<and>
     direction \<in> set create_all_directions \<and>
     word_at [[Some CHR ''A'', None, None], [None, Some CHR ''B'', None], [None, None, None]]
       3 ''AB'' position direction"
proof -
  have wf: "wf_board (init_board 3) 3" by code_simp
  have nz: "(0, 0) \<notin> set create_all_directions" by (simp add: create_all_directions_def)
  have run: "populate_board (init_board 3) 3 [''AB''] create_all_directions [0, 0, 0, 3]
     = Some (Inr ([[Some CHR ''A'', None, None], [None, Some CHR ''B'', None], [None, None, None]],
                  [''AB''], 2, []))"
    by code_simp
  have mem: "''AB'' \<in> set [''AB'']" by simp
  show ?thesis by (rule populate_board_words_on_grid[OF wf nz run mem])
qed

text \<open>
  C5. The loop over the vocabulary, started in any state of \<^verbatim>\<open>populate_board\<close> with
  a well-formed board (so at any moment between two words) and run with a direction list
  without the zero vector, never replaces a letter: a cell of the grid that holds a
  character holds the same character when the loop returns.
\<close>

theorem populate_never_overwrites_letter:
  assumes "wf_board (st_board s) n" and "(0, 0) \<notin> set directions"
    and "populate_words n directions vocabulary s = Some (Inr s')"
    and "in_grid n r c" and "cell_at (st_board s) r c = Some ch"
  shows "cell_at (st_board s') r c = Some ch"
proof -
  from populate_words_inv[OF assms(1,2,3)]
  have "letters_kept n (st_board s) (st_board s')" by simp
  with assms(4,5) show ?thesis by (simp add: letters_kept_iff)
qed

text \<open>
  An instance in which two accepted placements share a cell: \<open>AB\<close> is written
  from \<open>(0, 0)\<close> along \<open>(1, 1)\<close>, which leaves the state of the second line, and from
  that state \<open>BX\<close> is written from \<open>(1, 1)\<close> along \<open>(1, 1)\<close>, across the \<open>B\<close> of
  the first word.
\<close>

theorem populate_never_overwrites_letter_witness:
  "populate_words 3 create_all_directions [''AB'']
       (initial_state (init_board 3) 3 [0, 0, 0, 3, 2, 2, 1, 3])
     = Some (Inr \<lparr>st_board = [[Some CHR ''A'', None, None], [None, Some CHR ''B'', None],
                              [None, None, None]],
                  st_positions = [(0, 1), (1, 0), (1, 1)], st_pop_positions = [(0, 0)],
                  st_words = [''AB''], st_max_length = 2, st_rng = [2, 2, 1, 3]\<rparr>) \<and>
   populate_words 3 create_all_directions [''BX'']
       \<lparr>st_board = [[Some CHR ''A'', None, None], [None, Some CHR ''B'', None],
                    [None, None, None]],
        st_positions = [(0, 1), (1, 0), (1, 1)], st_pop_positions = [(0, 0)],
        st_words = [''AB''], st_max_length = 2, st_rng = [2, 2, 1, 3]\<rparr>
     = Some (Inr \<lparr>st_board = [[Some CHR ''A'', None, None], [None, Some CHR ''B'', None],
                              [None, None, Some CHR ''X'']],
                  st_positions = [(0, 1), (1, 0), (0, 0)], st_pop_positions = [(1, 1)],
                  st_words = [''AB'', ''BX''], st_max_length = 2, st_rng = []\<rparr>) \<and>
   cell_at [[Some CHR ''A'', None, None], [None, Some CHR ''B'', None],
            [None, None, Some CHR ''X'']] 1 1 = Some CHR ''B''"
proof -
  let ?s1 = "\<lparr>st_board = [[Some CHR ''A'', None, None], [None, Some CHR ''B'', None],
                            [None, None, None]],
                st_positions = [(0, 1), (1, 0), (1, 1)], st_pop_positions = [(0, 0)],
                st_words = [''AB''], st_max_length = 2, st_rng = [2, 2, 1, 3]\<rparr>"
  let ?s2 = "\<lparr>st_board = [[Some CHR ''A'', None, None], [None, Some CHR ''B'', None],
                            [None, None, Some CHR ''X'']],
                st_positions = [(0, 1), (1, 0), (0, 0)], st_pop_positions = [(1, 1)],
                st_words = [''AB'', ''BX''], st_max_length = 2, st_rng = []\<rparr>"
  have run1: "populate_words 3 create_all_directions [''AB'']
       (initial_state (init_board 3) 3 [0, 0, 0, 3, 2, 2, 1, 3]) = Some (Inr ?s1)"
    by code_simp
  have run2: "populate_words 3 create_all_directions [''BX''] ?s1 = Some (Inr ?s2)"
    by code_simp
  have wf: "wf_board (st_board ?s1) 3" by code_simp
  have nz: "(0, 0) \<notin> set create_all_directions" by (simp add: create_all_directions_def)
  have g: "in_grid 3 1 1" by (simp add: in_grid_def)
  have old: "cell_at (st_board ?s1) 1 1 = Some CHR ''B''" by (simp add: cell_at_def)
  from populate_never_overwrites_letter[OF wf nz run2 g old] run1 run2
  show ?thesis by simp
qed




text \<open>
  C7. \<^verbatim>\<open>populate_board\<close> returns for every board, board size, vocabulary, direction
  list and random source (with a result or with the IndexError of an empty direction list
  or of a board smaller than its size), and so does the \<^verbatim>\<open>while\<close> loop from every
  state. Each pass of the loop body over a non-empty pool leaves a strictly shorter pool.
\<close>

theorem populate_board_terminates:
  "(\<exists>result. populate_board board n vocabulary directions g = Some result) \<and>
   (\<exists>result. attempt_loop n word directions s placed = Some result) \<and>
   (st_positions s \<noteq> [] \<longrightarrow>
      (case attempt_step n word directions s of
         Inl e \<Rightarrow> True
       | Inr (s', placed') \<Rightarrow> length (st_positions s') < length (st_positions s)))"
proof (intro conjI impI)
  from populate_words_total[of n directions vocabulary "initial_state board n g"]
  obtain r where "populate_words n directions vocabulary (initial_state board n g) = Some r"
    by blast
  then show "\<exists>result. populate_board board n vocabulary directions g = Some result"
    by (cases r) (simp_all add: populate_board_def)
next
  show "\<exists>result. attempt_loop n word directions s placed = Some result"
    by (rule attempt_loop_total)
next
  assume "st_positions s \<noteq> []"
  then show "case attempt_step n word directions s of
         Inl e \<Rightarrow> True
       | Inr (s', placed') \<Rightarrow> length (st_positions s') < length (st_positions s)"
    by (auto split: sum.splits dest: attempt_step_shrinks)
qed

theorem populate_board_terminates_witness:
  "(\<exists>result. populate_board (init_board 3) 3 [''AB''] create_all_directions [] = Some result) \<and>
   st_positions (initial_state (init_board 3) 3 []) \<noteq> [] \<and>
   (case attempt_step 3 ''AB'' create_all_directions (initial_state (init_board 3) 3 []) of
      Inl e \<Rightarrow> True
    | Inr (s', placed') \<Rightarrow>
        length (st_positions s') < length (st_positions (initial_state (init_board 3) 3 [])))"
proof -
  have ne: "st_positions (initial_state (init_board 3) 3 []) \<noteq> []" by code_simp
  from populate_board_terminates[of "init_board 3" 3 "[''AB'']" create_all_directions "[]"
      "''AB''" "initial_state (init_board 3) 3 []" False] ne
  show ?thesis by blast
qed

text \<open>
  C8. The pool of candidate starting positions with which \<^verbatim>\<open>populate_board\<close> starts is
  the product of \<^verbatim>\<open>range(0, board_size - 1)\<close> with itself: exactly the positions
  \<open>(r, c)\<close> with \<open>0 \<le> r \<le> n - 2\<close> and \<open>0 \<le> c \<le> n - 2\<close>, each once. No position of
  the last row or of the last column is in it.
\<close>

theorem initial_positions_exclude_last_row_and_column:
  "st_positions (initial_state board n g) = candidate_positions n \<and>
   set (candidate_positions n) = {(r, c). 0 \<le> r \<and> r \<le> n - 2 \<and> 0 \<le> c \<and> c \<le> n - 2} \<and>
   distinct (candidate_positions n) \<and>
   length (candidate_positions n) = nat (n - 1) * nat (n - 1) \<and>
   (n - 1, c) \<notin> set (candidate_positions n) \<and> (r, n - 1) \<notin> set (candidate_positions n)"
  by (simp add: initial_state_def candidate_positions_set candidate_positions_distinct
      candidate_positions_length)

text \<open>
  C9, as stated. The claim is that an empty vocabulary or a board size \<open>n \<le> 0\<close> is
  refused with an InvalidConfiguration condition. The source has no such check: lines 228
  to 232 of \<^verbatim>\<open>main\<close>, run on either degenerate input, return a normal result.
\<close>

theorem degenerate_input_counterexample:
  "generate 0 [''CAT''] create_all_directions [] = Some (Inr ([], [], 0, [])) \<and>
   generate 2 [] create_all_directions []
     = Some (Inr ([[Some CHR ''A'', Some CHR ''A''], [Some CHR ''A'', Some CHR ''A'']], [], 0, []))"
  by code_simp

text \<open>
  C9, as the code has it. With an empty vocabulary or a board size \<open>n \<le> 0\<close>,
  \<^verbatim>\<open>populate_board\<close> raises nothing: it returns the board unchanged, no word, the
  maximum length 0 and the random source untouched, and the filler then runs and returns.
\<close>

theorem degenerate_input_returns_normally:
  assumes "vocabulary = [] \<or> board_size \<le> 0"
  shows "populate_board board board_size vocabulary directions g = Some (Inr (board, [], 0, g)) \<and>
         (\<exists>filled g'. generate board_size vocabulary directions g = Some (Inr (filled, [], 0, g')))"
proof -
  have pw: "populate_words board_size directions vocabulary (initial_state b board_size g)
              = Some (Inr (initial_state b board_size g))" for b
    using assms
  proof
    assume "vocabulary = []"
    then show ?thesis by simp
  next
    assume "board_size \<le> 0"
    then have "candidate_positions board_size = []" by (simp add: candidate_positions_empty)
    then show ?thesis by (intro populate_words_empty_pool) (simp_all add: initial_state_def)
  qed
  have pb: "populate_board b board_size vocabulary directions g = Some (Inr (b, [], 0, g))" for b
    using pw[of b] by (simp add: populate_board_def initial_state_def)
  have "\<exists>filled g'. fill_empty_cells (init_board board_size) board_size g = Inr (filled, g')"
  proof (cases "board_size \<le> 0")
    case True
    then show ?thesis by (simp add: fill_empty_cells_no_rows)
  next
    case False
    then have "wf_board (init_board board_size) board_size" by (simp add: wf_init_board)
    from fill_empty_cells_effect[OF this, of g] show ?thesis by blast
  qed
  then obtain filled g' where
    "fill_empty_cells (init_board board_size) board_size g = Inr (filled, g')" by blast
  with pb[of "init_board board_size"]
  have "generate board_size vocabulary directions g = Some (Inr (filled, [], 0, g'))"
    by (simp add: generate_def)
  with pb[of board] show ?thesis by blast
qed

theorem degenerate_input_returns_normally_witness:
  "populate_board (init_board 0) 0 [''CAT''] create_all_directions [7]
     = Some (Inr (init_board 0, [], 0, [7])) \<and>
   (\<exists>filled g'. generate 0 [''CAT''] create_all_directions [7] = Some (Inr (filled, [], 0, g')))"
proof -
  have h: "[''CAT''] = [] \<or> (0::int) \<le> 0" by simp
  show ?thesis by (rule degenerate_input_returns_normally[OF h])
qed

text \<open>
  C10. On a board of \<open>n\<close> rows of \<open>n\<close> cells, \<^verbatim>\<open>fill_empty_cells\<close> returns a board
  in which every cell of the grid that held a character holds the same character, so a
  word written on the board before the filling is written on it after.
\<close>

theorem fill_empty_cells_keeps_letters:
  assumes "wf_board board n"
  shows "\<exists>board' g'. fill_empty_cells board n g = Inr (board', g') \<and>
           (\<forall>r c ch. in_grid n r c \<longrightarrow> cell_at board r c = Some ch \<longrightarrow>
                      cell_at board' r c = Some ch) \<and>
           (\<forall>word position direction. word_at board n word position direction \<longrightarrow>
                      word_at board' n word position direction)"
proof -
  from fill_empty_cells_effect[OF assms, of g]
  obtain b' g' where run: "fill_empty_cells board n g = Inr (b', g')"
    and ff: "filled_from n board b'" by blast
  from filled_from_kept[OF ff] have keep: "letters_kept n board b'" .
  then have cells: "\<forall>r c ch. in_grid n r c \<longrightarrow> cell_at board r c = Some ch \<longrightarrow>
                      cell_at b' r c = Some ch"
    by (simp add: letters_kept_iff)
  have words: "\<forall>word position direction. word_at board n word position direction \<longrightarrow>
                      word_at b' n word position direction"
    using word_at_kept[OF _ keep] by blast
  from run cells words show ?thesis by blast
qed

theorem fill_empty_cells_keeps_letters_witness:
  "\<exists>board' g'. fill_empty_cells [[Some CHR ''C'', None], [None, Some CHR ''D'']] 2 [5] = Inr (board', g') \<and>
     cell_at board' 0 0 = Some CHR ''C'' \<and> word_at board' 2 ''CD'' (0, 0) (1, 1)"
proof -
  let ?b = "[[Some CHR ''C'', None], [None, Some CHR ''D'']]"
  have wf: "wf_board ?b 2" by code_simp
  have g: "in_grid 2 0 0" by (simp add: in_grid_def)
  have old: "cell_at ?b 0 0 = Some CHR ''C''" by (simp add: cell_at_def)
  have w: "word_at ?b 2 ''CD'' (0, 0) (1, 1)" by code_simp
  from fill_empty_cells_keeps_letters[OF wf, of "[5]"] g old w show ?thesis by blast
qed

end
